theory Spec2Isabelle
  imports Complex_Main "HOL-Library.AList" "HOL-Library.Sublist" "HOL-Library.Multiset"
begin

section \<open>Python errors and indexing\<close>

text \<open>
  The exceptions the modelled code can raise.  A fallible operation returns
  \<open>py_error + 'a\<close>, with \<open>Inl\<close> for the raised exception.
\<close>

datatype py_error =
  AttributeError | IndexError | KeyError | RuntimeError | ValueError
  | FileNotFoundError | AssertionError

text \<open>
  Indexing a Python sequence of length \<open>n\<close> (a list, a \<open>ModuleList\<close>) with
  an integer: negative indices count from the end, anything outside
  \<open>-n \<le> idx < n\<close> raises \<open>IndexError\<close>.
\<close>

definition abs_index :: "nat \<Rightarrow> int \<Rightarrow> py_error + nat" where
  "abs_index n idx =
     (if - int n \<le> idx \<and> idx < int n
      then Inr (nat (if idx < 0 then idx + int n else idx))
      else Inl IndexError)"

section \<open>Tensors and the layers of torch.nn (as used by network.py)\<close>

text \<open>
  A tensor is its shape together with the function from a multi-index to
  the entry there.  Entries are real numbers: floating-point rounding,
  infinities and NaN are not modelled.
\<close>

record tensor =
  shape :: "nat list"
  elem :: "nat list \<Rightarrow> real"

text \<open>
  The numbers a learned layer (convolution, normalisation, recurrent or
  attention layer, linear map) produces depend on its weights, which no
  claim fixes.  Such a layer carries a function \<open>vfun\<close> giving the entries
  of its output for an input tensor; the shape of the output and the
  conditions under which the layer raises are those of \<open>torch.nn\<close>.
  A family \<open>weights\<close> of such functions, indexed by the path of the layer
  inside the module tree, stands for the initialisation of the parameters.
\<close>

type_synonym vfun = "tensor \<Rightarrow> nat list \<Rightarrow> real"
type_synonym weights = "nat list \<Rightarrow> vfun"

definition sub :: "weights \<Rightarrow> nat \<Rightarrow> weights" where
  "sub w i = (\<lambda>p. w (i # p))"

definition swap_dims :: "nat \<Rightarrow> nat \<Rightarrow> 'a list \<Rightarrow> 'a list" where
  "swap_dims d0 d1 xs = xs[d0 := xs ! d1, d1 := xs ! d0]"

text \<open>\<open>x.transpose(d0, d1)\<close>: a dimension out of range raises \<open>IndexError\<close>.\<close>

definition transpose_dims :: "nat \<Rightarrow> nat \<Rightarrow> tensor \<Rightarrow> py_error + tensor" where
  "transpose_dims d0 d1 x =
     (if d0 < length (shape x) \<and> d1 < length (shape x)
      then Inr \<lparr>shape = swap_dims d0 d1 (shape x), elem = (\<lambda>idx. elem x (swap_dims d0 d1 idx))\<rparr>
      else Inl IndexError)"

text \<open>\<open>x.unsqueeze(1)\<close> and \<open>x.squeeze(1)\<close> (which removes dimension 1 only when its extent is 1).\<close>

definition unsqueeze1 :: "tensor \<Rightarrow> py_error + tensor" where
  "unsqueeze1 x =
     (if 1 \<le> length (shape x)
      then Inr \<lparr>shape = take 1 (shape x) @ [1] @ drop 1 (shape x),
                 elem = (\<lambda>idx. elem x (take 1 idx @ drop 2 idx))\<rparr>
      else Inl IndexError)"

definition squeeze1 :: "tensor \<Rightarrow> py_error + tensor" where
  "squeeze1 x =
     (if 2 \<le> length (shape x)
      then (if shape x ! 1 = 1
            then Inr \<lparr>shape = take 1 (shape x) @ drop 2 (shape x),
                       elem = (\<lambda>idx. elem x (take 1 idx @ [0] @ drop 1 idx))\<rparr>
            else Inr x)
      else Inl IndexError)"

text \<open>
  \<open>torch.cat([x, y], dim=1)\<close>: both tensors have the same rank and agree
  in every dimension but dimension 1.
\<close>

definition cat_dim1 :: "tensor \<Rightarrow> tensor \<Rightarrow> py_error + tensor" where
  "cat_dim1 x y =
     (if 2 \<le> length (shape x) \<and> length (shape y) = length (shape x)
         \<and> (shape y)[1 := shape x ! 1] = shape x
      then Inr \<lparr>shape = (shape x)[1 := shape x ! 1 + shape y ! 1],
                 elem = (\<lambda>idx. if idx ! 1 < shape x ! 1 then elem x idx
                                else elem y (idx[1 := idx ! 1 - shape x ! 1]))\<rparr>
      else Inl RuntimeError)"

text \<open>
  \<open>torch.topk(x, k, dim=2)[0]\<close>: along dimension 2, the \<open>k\<close> largest
  entries in descending order; \<open>k\<close> larger than the extent raises.
\<close>

definition topk_values :: "'a::linorder list \<Rightarrow> nat \<Rightarrow> 'a list" where
  "topk_values xs k = take k (rev (sort xs))"

definition topk_dim2 :: "tensor \<Rightarrow> nat \<Rightarrow> py_error + tensor" where
  "topk_dim2 x k =
     (if 3 \<le> length (shape x) \<and> k \<le> shape x ! 2
      then Inr \<lparr>shape = (shape x)[2 := k],
                 elem = (\<lambda>idx. topk_values (map (\<lambda>s. elem x (idx[2 := s])) [0..<shape x ! 2]) k ! (idx ! 2))\<rparr>
      else Inl RuntimeError)"

text \<open>
  The layers.  Arguments, in order: \<open>Conv2d in out (kh, kw) (ph, pw)\<close>,
  \<open>BatchNorm2d features training\<close>, \<open>Conv1d in out kernel padding\<close>,
  \<open>BatchNorm1d features training\<close>, \<open>MaxPool1d kernel\<close> (stride = kernel),
  \<open>ConvTranspose1d in out kernel stride\<close>, \<open>Linear in out\<close>,
  \<open>LayerNorm width\<close>; stride 1 and dilation 1 for the convolutions.
\<close>

datatype layer =
    Conv2d nat nat "nat \<times> nat" "nat \<times> nat" vfun
  | BatchNorm2d nat bool vfun
  | ReLU
  | Conv1d nat nat nat nat vfun
  | BatchNorm1d nat bool vfun
  | MaxPool1d nat
  | ConvTranspose1d nat nat nat nat vfun
  | Sigmoid
  | Linear nat nat vfun
  | LayerNorm nat vfun

definition sigmoid :: "real \<Rightarrow> real" where
  "sigmoid v = 1 / (1 + exp (- v))"

text \<open>
  Batch normalisation in training mode raises \<open>ValueError\<close> when there is
  exactly one value per channel (batch extent times the remaining extents).
\<close>

definition one_value_per_channel :: "nat list \<Rightarrow> bool" where
  "one_value_per_channel s = (hd s * prod_list (drop 2 s) = 1)"

text \<open>
  A convolution along an axis of extent \<open>l\<close> with kernel \<open>k\<close> and padding
  \<open>p\<close> needs \<open>k \<le> l + 2 p\<close> and gives extent \<open>l + 2 p - k + 1\<close>.  The
  convolutions and the pooling take a batched input or an unbatched one
  (one dimension less); a convolution with no input channel, no output
  channel or an empty kernel raises when it is applied.
\<close>

definition conv_fits :: "nat \<Rightarrow> nat \<Rightarrow> nat \<Rightarrow> bool" where
  "conv_fits l k p \<longleftrightarrow> k \<le> l + 2 * p"

definition conv_extent :: "nat \<Rightarrow> nat \<Rightarrow> nat \<Rightarrow> nat" where
  "conv_extent l k p = l + 2 * p - k + 1"

definition pool_window :: "tensor \<Rightarrow> nat \<Rightarrow> nat list \<Rightarrow> real" where
  "pool_window x k idx =
     (let r = length (shape x) - 1
      in fold max (map (\<lambda>d. elem x (idx[r := idx ! r * k + d])) [1..<k])
           (elem x (idx[r := idx ! r * k])))"

fun layer_forward :: "layer \<Rightarrow> tensor \<Rightarrow> py_error + tensor" where
  "layer_forward (Conv2d cin cout (kh, kw) (ph, pw) f) x =
     (if cin = 0 \<or> cout = 0 \<or> kh = 0 \<or> kw = 0 then Inl RuntimeError
      else case shape x of
        [n, c, h, w] \<Rightarrow>
          if c = cin \<and> conv_fits h kh ph \<and> conv_fits w kw pw
          then Inr \<lparr>shape = [n, cout, conv_extent h kh ph, conv_extent w kw pw], elem = f x\<rparr>
          else Inl RuntimeError
      | [c, h, w] \<Rightarrow>
          if c = cin \<and> conv_fits h kh ph \<and> conv_fits w kw pw
          then Inr \<lparr>shape = [cout, conv_extent h kh ph, conv_extent w kw pw], elem = f x\<rparr>
          else Inl RuntimeError
      | _ \<Rightarrow> Inl RuntimeError)"
| "layer_forward (BatchNorm2d nf training f) x =
     (case shape x of
        [n, c, h, w] \<Rightarrow>
          if c \<noteq> nf then Inl RuntimeError
          else if training \<and> one_value_per_channel (shape x) then Inl ValueError
          else Inr \<lparr>shape = shape x, elem = f x\<rparr>
      | _ \<Rightarrow> Inl RuntimeError)"
| "layer_forward ReLU x = Inr \<lparr>shape = shape x, elem = (\<lambda>idx. max 0 (elem x idx))\<rparr>"
| "layer_forward (Conv1d cin cout k p f) x =
     (if cin = 0 \<or> cout = 0 \<or> k = 0 then Inl RuntimeError
      else case shape x of
        [n, c, t] \<Rightarrow>
          if c = cin \<and> conv_fits t k p
          then Inr \<lparr>shape = [n, cout, conv_extent t k p], elem = f x\<rparr>
          else Inl RuntimeError
      | [c, t] \<Rightarrow>
          if c = cin \<and> conv_fits t k p
          then Inr \<lparr>shape = [cout, conv_extent t k p], elem = f x\<rparr>
          else Inl RuntimeError
      | _ \<Rightarrow> Inl RuntimeError)"
| "layer_forward (BatchNorm1d nf training f) x =
     (case shape x of
        [n, c] \<Rightarrow>
          if c \<noteq> nf then Inl RuntimeError
          else if training \<and> one_value_per_channel (shape x) then Inl ValueError
          else Inr \<lparr>shape = shape x, elem = f x\<rparr>
      | [n, c, t] \<Rightarrow>
          if c \<noteq> nf then Inl RuntimeError
          else if training \<and> one_value_per_channel (shape x) then Inl ValueError
          else Inr \<lparr>shape = shape x, elem = f x\<rparr>
      | _ \<Rightarrow> Inl RuntimeError)"
| "layer_forward (MaxPool1d k) x =
     (case shape x of
        [n, c, t] \<Rightarrow>
          if k = 0 \<or> t < k then Inl RuntimeError
          else Inr \<lparr>shape = [n, c, (t - k) div k + 1], elem = pool_window x k\<rparr>
      | [c, t] \<Rightarrow>
          if k = 0 \<or> t < k then Inl RuntimeError
          else Inr \<lparr>shape = [c, (t - k) div k + 1], elem = pool_window x k\<rparr>
      | _ \<Rightarrow> Inl RuntimeError)"
| "layer_forward (ConvTranspose1d cin cout k s f) x =
     (if cin = 0 \<or> cout = 0 \<or> k = 0 \<or> s = 0 then Inl RuntimeError
      else case shape x of
        [n, c, t] \<Rightarrow>
          if c = cin \<and> 0 < t
          then Inr \<lparr>shape = [n, cout, (t - 1) * s + k], elem = f x\<rparr>
          else Inl RuntimeError
      | [c, t] \<Rightarrow>
          if c = cin \<and> 0 < t
          then Inr \<lparr>shape = [cout, (t - 1) * s + k], elem = f x\<rparr>
          else Inl RuntimeError
      | _ \<Rightarrow> Inl RuntimeError)"
| "layer_forward Sigmoid x = Inr \<lparr>shape = shape x, elem = (\<lambda>idx. sigmoid (elem x idx))\<rparr>"
| "layer_forward (Linear fin fout f) x =
     (if shape x \<noteq> [] \<and> last (shape x) = fin
      then Inr \<lparr>shape = butlast (shape x) @ [fout], elem = f x\<rparr>
      else Inl RuntimeError)"
| "layer_forward (LayerNorm d f) x =
     (if shape x \<noteq> [] \<and> last (shape x) = d
      then Inr \<lparr>shape = shape x, elem = f x\<rparr>
      else Inl RuntimeError)"

text \<open>\<open>nn.Sequential\<close>: the layers in order, stopping at the first exception.\<close>

fun Sequential_forward :: "layer list \<Rightarrow> tensor \<Rightarrow> py_error + tensor" where
  "Sequential_forward [] x = Inr x"
| "Sequential_forward (l # ls) x =
     (case layer_forward l x of Inl e \<Rightarrow> Inl e | Inr y \<Rightarrow> Sequential_forward ls y)"

text \<open>
  \<open>nn.LSTM\<close> with \<open>batch_first=True\<close>: input \<open>(N, L, input_size)\<close>, output
  \<open>(N, L, D * hidden_size)\<close> with \<open>D = 2\<close> when bidirectional, or an
  unbatched input \<open>(L, input_size)\<close>; an empty sequence raises.  The
  constructor refuses a dropout outside \<open>[0, 1]\<close>, a hidden size of zero
  and a layer count of zero.
\<close>

record LSTM =
  input_size :: nat
  hidden_size :: nat
  num_layers :: nat
  bidirectional :: bool
  dropout :: real
  lstm_fn :: vfun

definition LSTM_init :: "vfun \<Rightarrow> nat \<Rightarrow> nat \<Rightarrow> nat \<Rightarrow> bool \<Rightarrow> real \<Rightarrow> py_error + LSTM" where
  "LSTM_init f isz hsz nl bi dr =
     (if dr < 0 \<or> 1 < dr then Inl ValueError
      else if hsz = 0 then Inl ValueError
      else if nl = 0 then Inl ValueError
      else Inr \<lparr>input_size = isz, hidden_size = hsz, num_layers = nl, bidirectional = bi,
                 dropout = dr, lstm_fn = f\<rparr>)"

definition LSTM_forward :: "LSTM \<Rightarrow> tensor \<Rightarrow> py_error + tensor" where
  "LSTM_forward l x =
     (case shape x of
        [n, t, c] \<Rightarrow>
          if c = input_size l \<and> 0 < t
          then Inr \<lparr>shape = [n, t, (if bidirectional l then 2 else 1) * hidden_size l],
                     elem = lstm_fn l x\<rparr>
          else Inl RuntimeError
      | [t, c] \<Rightarrow>
          if c = input_size l \<and> 0 < t
          then Inr \<lparr>shape = [t, (if bidirectional l then 2 else 1) * hidden_size l],
                     elem = lstm_fn l x\<rparr>
          else Inl RuntimeError
      | _ \<Rightarrow> Inl RuntimeError)"

section \<open>The single-site network (network.py)\<close>

subsection \<open>SpatialReductionPreprocessing\<close>

text \<open>
  \<^verbatim>\<open>
    self.spatial_temporal_processing = nn.Sequential(
        nn.Conv2d(in_channels=1, out_channels=16, kernel_size=(5, 7), padding=(2, 3), stride=1),
        nn.BatchNorm2d(16), nn.ReLU(),
        nn.Conv2d(in_channels=16, out_channels=16, kernel_size=(5, 7), padding=(2, 3), stride=1),
        nn.BatchNorm2d(16), nn.ReLU())
    self.channel_adjust = nn.Conv2d(16, 1, kernel_size=1)

    def forward(self, x):
        batch, spatial, temporal = x.shape
        x = x.unsqueeze(1)
        x = self.spatial_temporal_processing(x)
        x = torch.topk(x, self.out_channels, dim=2)[0]
        x = self.channel_adjust(x)
        x = x.squeeze(1)
        return x
  \<close>
  A freshly constructed module is in training mode.
\<close>

record SpatialReductionPreprocessing =
  sr_in_channels :: nat
  sr_out_channels :: nat
  spatial_temporal_processing :: "layer list"
  channel_adjust :: layer

definition SpatialReductionPreprocessing_init ::
  "weights \<Rightarrow> nat \<Rightarrow> nat \<Rightarrow> SpatialReductionPreprocessing" where
  "SpatialReductionPreprocessing_init w in_channels out_channels =
     \<lparr>sr_in_channels = in_channels,
      sr_out_channels = out_channels,
      spatial_temporal_processing =
        [Conv2d 1 16 (5, 7) (2, 3) (w [0, 0]), BatchNorm2d 16 True (w [0, 1]), ReLU,
         Conv2d 16 16 (5, 7) (2, 3) (w [0, 3]), BatchNorm2d 16 True (w [0, 4]), ReLU],
      channel_adjust = Conv2d 16 1 (1, 1) (0, 0) (w [1])\<rparr>"

definition SpatialReductionPreprocessing_forward ::
  "SpatialReductionPreprocessing \<Rightarrow> tensor \<Rightarrow> py_error + tensor" where
  "SpatialReductionPreprocessing_forward m x =
     (if length (shape x) \<noteq> 3 then Inl ValueError else
      case unsqueeze1 x of Inl e \<Rightarrow> Inl e | Inr x1 \<Rightarrow>
      case Sequential_forward (spatial_temporal_processing m) x1 of Inl e \<Rightarrow> Inl e | Inr x2 \<Rightarrow>
      case topk_dim2 x2 (sr_out_channels m) of Inl e \<Rightarrow> Inl e | Inr x3 \<Rightarrow>
      case layer_forward (channel_adjust m) x3 of Inl e \<Rightarrow> Inl e | Inr x4 \<Rightarrow>
      squeeze1 x4)"

subsection \<open>EncoderBlock and DecoderBlock\<close>

text \<open>
  \<^verbatim>\<open>
    class EncoderBlock(nn.Module):
        def __init__(self, in_channels, out_channels, kernel_size):
            self.conv = nn.Sequential(
                nn.Conv1d(in_channels, out_channels, kernel_size, padding=kernel_size//2),
                nn.BatchNorm1d(out_channels), nn.ReLU(),
                nn.Conv1d(out_channels, out_channels, kernel_size, padding=kernel_size//2),
                nn.BatchNorm1d(out_channels), nn.ReLU())
            self.pool = nn.MaxPool1d(2)
        def forward(self, x):
            features = self.conv(x)
            return self.pool(features), features

    class DecoderBlock(nn.Module):
        def __init__(self, in_channels, out_channels, kernel_size):
            self.transposed_conv = nn.ConvTranspose1d(in_channels, in_channels, kernel_size=2, stride=2)
            self.conv = nn.Sequential(
                nn.Conv1d(in_channels*2, in_channels, kernel_size, padding=kernel_size//2),
                nn.BatchNorm1d(in_channels), nn.ReLU(),
                nn.Conv1d(in_channels, out_channels, kernel_size, padding=kernel_size//2),
                nn.BatchNorm1d(out_channels), nn.ReLU())
        def forward(self, x, skip):
            x = self.transposed_conv(x)
            x = torch.cat([x, skip], dim=1)
            return self.conv(x)
  \<close>
\<close>

record EncoderBlock =
  enc_conv :: "layer list"
  enc_pool :: layer

record DecoderBlock =
  transposed_conv :: layer
  dec_conv :: "layer list"

definition EncoderBlock_init :: "weights \<Rightarrow> nat \<Rightarrow> nat \<Rightarrow> nat \<Rightarrow> EncoderBlock" where
  "EncoderBlock_init w in_channels out_channels kernel_size =
     \<lparr>enc_conv =
        [Conv1d in_channels out_channels kernel_size (kernel_size div 2) (w [0, 0]),
         BatchNorm1d out_channels True (w [0, 1]), ReLU,
         Conv1d out_channels out_channels kernel_size (kernel_size div 2) (w [0, 3]),
         BatchNorm1d out_channels True (w [0, 4]), ReLU],
      enc_pool = MaxPool1d 2\<rparr>"

definition EncoderBlock_forward :: "EncoderBlock \<Rightarrow> tensor \<Rightarrow> py_error + tensor \<times> tensor" where
  "EncoderBlock_forward b x =
     (case Sequential_forward (enc_conv b) x of Inl e \<Rightarrow> Inl e | Inr features \<Rightarrow>
      case layer_forward (enc_pool b) features of Inl e \<Rightarrow> Inl e | Inr pooled \<Rightarrow>
      Inr (pooled, features))"

definition DecoderBlock_init :: "weights \<Rightarrow> nat \<Rightarrow> nat \<Rightarrow> nat \<Rightarrow> DecoderBlock" where
  "DecoderBlock_init w in_channels out_channels kernel_size =
     \<lparr>transposed_conv = ConvTranspose1d in_channels in_channels 2 2 (w [0]),
      dec_conv =
        [Conv1d (in_channels * 2) in_channels kernel_size (kernel_size div 2) (w [1, 0]),
         BatchNorm1d in_channels True (w [1, 1]), ReLU,
         Conv1d in_channels out_channels kernel_size (kernel_size div 2) (w [1, 3]),
         BatchNorm1d out_channels True (w [1, 4]), ReLU]\<rparr>"

definition DecoderBlock_forward :: "DecoderBlock \<Rightarrow> tensor \<Rightarrow> tensor \<Rightarrow> py_error + tensor" where
  "DecoderBlock_forward b x skip =
     (case layer_forward (transposed_conv b) x of Inl e \<Rightarrow> Inl e | Inr x1 \<Rightarrow>
      case cat_dim1 x1 skip of Inl e \<Rightarrow> Inl e | Inr x2 \<Rightarrow>
      Sequential_forward (dec_conv b) x2)"

subsection \<open>PulseDetectionNet\<close>

text \<open>
  \<^verbatim>\<open>
    def __init__(self, in_channels, seq_len, reduce_channels=8, hidden_channels=[64, 128, 256],
                 kernel_size=5, use_lstm=True, lstm_hidden_size=128, lstm_num_layers=2, dropout=0.1):
        self.seq_len = seq_len
        self.use_lstm = use_lstm
        self.spatial_processing = SpatialReductionPreprocessing(in_channels, reduce_channels)
        current_channels = reduce_channels
        self.encoder_blocks = nn.ModuleList()
        for hidden_ch in hidden_channels:
            self.encoder_blocks.append(EncoderBlock(current_channels, hidden_ch, kernel_size))
            current_channels = hidden_ch
        if use_lstm:
            self.lstm = nn.LSTM(input_size=hidden_channels[-1], hidden_size=lstm_hidden_size,
                num_layers=lstm_num_layers, bidirectional=True,
                dropout=dropout if lstm_num_layers > 1 else 0, batch_first=True)
            current_channels = lstm_hidden_size * 2
        self.decoder_blocks = nn.ModuleList()
        hidden_channels_reversed = hidden_channels[::-1]
        hidden_channels_reversed.append(32)
        for i in range(len(hidden_channels_reversed) - 1):
            in_ch = current_channels
            out_ch = hidden_channels_reversed[i + 1]
            self.decoder_blocks.append(DecoderBlock(in_ch, out_ch, kernel_size))
            current_channels = out_ch
        self.final = nn.Sequential(
            nn.Conv1d(32, 32, kernel_size=3, padding=1), nn.BatchNorm1d(32), nn.ReLU(),
            nn.Conv1d(32, 1, kernel_size=1), nn.Sigmoid())
  \<close>
  The class body defines \<open>__init__\<close> and \<open>forward\<close> and no other method.
\<close>

record PulseDetectionNet =
  seq_len :: nat
  use_lstm :: bool
  spatial_processing :: SpatialReductionPreprocessing
  encoder_blocks :: "EncoderBlock list"
  lstm :: "LSTM option"
  decoder_blocks :: "DecoderBlock list"
  final :: "layer list"

fun make_encoder_blocks :: "weights \<Rightarrow> nat \<Rightarrow> nat \<Rightarrow> nat \<Rightarrow> nat list \<Rightarrow> EncoderBlock list" where
  "make_encoder_blocks w i kernel_size current_channels [] = []"
| "make_encoder_blocks w i kernel_size current_channels (hidden_ch # rest) =
     EncoderBlock_init (sub w i) current_channels hidden_ch kernel_size
       # make_encoder_blocks w (Suc i) kernel_size hidden_ch rest"

fun make_decoder_blocks :: "weights \<Rightarrow> nat \<Rightarrow> nat \<Rightarrow> nat \<Rightarrow> nat list \<Rightarrow> DecoderBlock list" where
  "make_decoder_blocks w i kernel_size current_channels [] = []"
| "make_decoder_blocks w i kernel_size current_channels (out_ch # rest) =
     DecoderBlock_init (sub w i) current_channels out_ch kernel_size
       # make_decoder_blocks w (Suc i) kernel_size out_ch rest"

definition PulseDetectionNet_init ::
  "weights \<Rightarrow> nat \<Rightarrow> nat \<Rightarrow> nat \<Rightarrow> nat list \<Rightarrow> nat \<Rightarrow> bool \<Rightarrow> nat \<Rightarrow> nat \<Rightarrow> real
     \<Rightarrow> py_error + PulseDetectionNet" where
  "PulseDetectionNet_init w in_channels seq_len' reduce_channels hidden_channels kernel_size
       use_lstm' lstm_hidden_size lstm_num_layers dropout' =
     (let spatial = SpatialReductionPreprocessing_init (sub w 0) in_channels reduce_channels;
          encoders = make_encoder_blocks (sub w 1) 0 kernel_size reduce_channels hidden_channels;
          current_channels = last (reduce_channels # hidden_channels);
          hidden_channels_reversed = rev hidden_channels @ [32];
          fin = [Conv1d 32 32 3 1 (w [4, 0]), BatchNorm1d 32 True (w [4, 1]), ReLU,
                 Conv1d 32 1 1 0 (w [4, 3]), Sigmoid]
      in if use_lstm' then
           (if hidden_channels = [] then Inl IndexError else
            case LSTM_init (w [2]) (last hidden_channels) lstm_hidden_size lstm_num_layers True
                   (if 1 < lstm_num_layers then dropout' else 0) of
              Inl e \<Rightarrow> Inl e
            | Inr l \<Rightarrow>
                Inr \<lparr>seq_len = seq_len', use_lstm = use_lstm', spatial_processing = spatial,
                     encoder_blocks = encoders, lstm = Some l,
                     decoder_blocks = make_decoder_blocks (sub w 3) 0 kernel_size
                                        (lstm_hidden_size * 2) (tl hidden_channels_reversed),
                     final = fin\<rparr>)
         else
           Inr \<lparr>seq_len = seq_len', use_lstm = use_lstm', spatial_processing = spatial,
                encoder_blocks = encoders, lstm = None,
                decoder_blocks = make_decoder_blocks (sub w 3) 0 kernel_size
                                   current_channels (tl hidden_channels_reversed),
                final = fin\<rparr>)"

text \<open>
  \<^verbatim>\<open>
    def forward(self, x):
        x = x.transpose(1, 2)
        x = self.spatial_processing(x)
        skip_connections = []
        for encoder in self.encoder_blocks:
            x, features = encoder(x)
            skip_connections.append(features)
        if self.use_lstm:
            batch_size, channels, seq_len = x.shape
            x = x.transpose(1, 2)
            x, _ = self.lstm(x)
            x = x.transpose(1, 2)
        skip_connections = skip_connections[::-1]
        for decoder, skip in zip(self.decoder_blocks, skip_connections):
            x = decoder(x, skip)
        x = self.final(x)
        return x.transpose(1, 2)
  \<close>
\<close>

fun run_encoders :: "EncoderBlock list \<Rightarrow> tensor \<Rightarrow> tensor list \<Rightarrow> py_error + tensor \<times> tensor list" where
  "run_encoders [] x skip_connections = Inr (x, skip_connections)"
| "run_encoders (encoder # rest) x skip_connections =
     (case EncoderBlock_forward encoder x of
        Inl e \<Rightarrow> Inl e
      | Inr (x', features) \<Rightarrow> run_encoders rest x' (skip_connections @ [features]))"

fun run_decoders :: "(DecoderBlock \<times> tensor) list \<Rightarrow> tensor \<Rightarrow> py_error + tensor" where
  "run_decoders [] x = Inr x"
| "run_decoders ((decoder, skip) # rest) x =
     (case DecoderBlock_forward decoder x skip of Inl e \<Rightarrow> Inl e | Inr x' \<Rightarrow> run_decoders rest x')"

definition run_lstm :: "PulseDetectionNet \<Rightarrow> tensor \<Rightarrow> py_error + tensor" where
  "run_lstm net x =
     (if use_lstm net then
        (if length (shape x) \<noteq> 3 then Inl ValueError else
         case transpose_dims 1 2 x of Inl e \<Rightarrow> Inl e | Inr x1 \<Rightarrow>
         case lstm net of None \<Rightarrow> Inl AttributeError | Some l \<Rightarrow>
         case LSTM_forward l x1 of Inl e \<Rightarrow> Inl e | Inr x2 \<Rightarrow>
         transpose_dims 1 2 x2)
      else Inr x)"

definition PulseDetectionNet_forward :: "PulseDetectionNet \<Rightarrow> tensor \<Rightarrow> py_error + tensor" where
  "PulseDetectionNet_forward net x =
     (case transpose_dims 1 2 x of Inl e \<Rightarrow> Inl e | Inr x0 \<Rightarrow>
      case SpatialReductionPreprocessing_forward (spatial_processing net) x0 of Inl e \<Rightarrow> Inl e | Inr x1 \<Rightarrow>
      case run_encoders (encoder_blocks net) x1 [] of Inl e \<Rightarrow> Inl e | Inr (x2, skip_connections) \<Rightarrow>
      case run_lstm net x2 of Inl e \<Rightarrow> Inl e | Inr x3 \<Rightarrow>
      case run_decoders (zip (decoder_blocks net) (rev skip_connections)) x3 of Inl e \<Rightarrow> Inl e | Inr x4 \<Rightarrow>
      case Sequential_forward (final net) x4 of Inl e \<Rightarrow> Inl e | Inr x5 \<Rightarrow>
      transpose_dims 1 2 x5)"

text \<open>
  The network of the module's \<open>__main__\<close> block, \<open>PulseDetectionNet(in_channels=40, seq_len=s)\<close>
  with the default arguments, for some initial weights.
\<close>

definition default_net :: "nat \<Rightarrow> py_error + PulseDetectionNet" where
  "default_net s = PulseDetectionNet_init (\<lambda>_ _ _. 0) 40 s 8 [64, 128, 256] 5 True 128 2 (1 / 10)"

section \<open>Stable top-k selection (the wording of the specification)\<close>

text \<open>
  The specification describes the reduction as choosing the \<open>k\<close> spatial
  positions with the largest activation, ties broken by ascending original
  index.  \<open>ranks_before xs i j\<close> says that position \<open>i\<close> is chosen before
  position \<open>j\<close>; \<open>stable_topk_positions\<close> sorts all positions in that
  order by insertion and keeps the first \<open>k\<close>.
\<close>

definition ranks_before :: "'a::linorder list \<Rightarrow> nat \<Rightarrow> nat \<Rightarrow> bool" where
  "ranks_before xs i j \<longleftrightarrow> xs ! j < xs ! i \<or> (xs ! i = xs ! j \<and> i < j)"

fun insert_ranked :: "'a::linorder list \<Rightarrow> nat \<Rightarrow> nat list \<Rightarrow> nat list" where
  "insert_ranked xs i [] = [i]"
| "insert_ranked xs i (j # js) =
     (if ranks_before xs i j then i # j # js else j # insert_ranked xs i js)"

definition ranked_positions :: "'a::linorder list \<Rightarrow> nat list" where
  "ranked_positions xs = foldr (insert_ranked xs) [0..<length xs] []"

definition stable_topk_positions :: "'a::linorder list \<Rightarrow> nat \<Rightarrow> nat list" where
  "stable_topk_positions xs k = take k (ranked_positions xs)"


text \<open>
  Example weights: the second batch normalisation of the spatial
  preprocessing outputs, at every batch element, feature map and timepoint,
  the activations 3, 1, 3, 2 along the spatial axis; every other learned
  layer outputs zeros.
\<close>

definition example_weights :: weights where
  "example_weights = (\<lambda>path z idx. if path = [0, 4] then [3, 1, 3, 2] ! (idx ! 2) else 0)"

section \<open>The multi-site network (network\_joint.py)\<close>

subsection \<open>Tensor operations used by the fusion and the orchestrator\<close>

text \<open>
  \<open>x.reshape(new_shape)\<close> keeps the entries in row-major order; the number
  of entries must not change.
\<close>

definition ravel :: "nat list \<Rightarrow> nat list \<Rightarrow> nat" where
  "ravel s idx = foldl (\<lambda>acc (d, i). acc * d + i) 0 (zip s idx)"

fun unravel :: "nat list \<Rightarrow> nat \<Rightarrow> nat list" where
  "unravel [] k = []"
| "unravel (d # ds) k = (k div prod_list ds) # unravel ds (k mod prod_list ds)"

definition reshape :: "nat list \<Rightarrow> tensor \<Rightarrow> py_error + tensor" where
  "reshape new_shape x =
     (if prod_list new_shape = prod_list (shape x)
      then Inr \<lparr>shape = new_shape, elem = (\<lambda>idx. elem x (unravel (shape x) (ravel new_shape idx)))\<rparr>
      else Inl RuntimeError)"

text \<open>
  \<open>torch.stack(xs, dim=1)\<close>: a non-empty list of tensors of one shape;
  the new dimension 1 enumerates the list.
\<close>

definition stack_dim1 :: "tensor list \<Rightarrow> py_error + tensor" where
  "stack_dim1 xs =
     (case xs of
        [] \<Rightarrow> Inl RuntimeError
      | x # _ \<Rightarrow>
          if list_all (\<lambda>y. shape y = shape x) xs \<and> 1 \<le> length (shape x)
          then Inr \<lparr>shape = take 1 (shape x) @ [length xs] @ drop 1 (shape x),
                     elem = (\<lambda>idx. elem (xs ! (idx ! 1)) (take 1 idx @ drop 2 idx))\<rparr>
          else Inl RuntimeError)"

text \<open>\<open>x[:, i, :, :]\<close> on a tensor of rank 4 (the index \<open>i\<close> is in range where it is used).\<close>

definition select_dim1 :: "tensor \<Rightarrow> nat \<Rightarrow> tensor" where
  "select_dim1 x i =
     \<lparr>shape = take 1 (shape x) @ drop 2 (shape x),
      elem = (\<lambda>idx. elem x (take 1 idx @ [i] @ drop 1 idx))\<rparr>"

text \<open>\<open>a + b\<close> for tensors of one shape (broadcasting is not modelled: other shapes raise).\<close>

definition tensor_add :: "tensor \<Rightarrow> tensor \<Rightarrow> py_error + tensor" where
  "tensor_add a b =
     (if shape a = shape b
      then Inr \<lparr>shape = shape a, elem = (\<lambda>idx. elem a idx + elem b idx)\<rparr>
      else Inl RuntimeError)"

text \<open>
  \<open>x.mean(dim=1)\<close>: the average along dimension 1, which disappears.
  (An empty dimension gives NaN in torch; here the quotient by zero.)
\<close>

definition mean_dim1 :: "tensor \<Rightarrow> py_error + tensor" where
  "mean_dim1 x =
     (if 2 \<le> length (shape x)
      then Inr \<lparr>shape = take 1 (shape x) @ drop 2 (shape x),
                 elem = (\<lambda>idx. (\<Sum>l\<leftarrow>[0..<shape x ! 1]. elem x (take 1 idx @ [l] @ drop 1 idx))
                                / real (shape x ! 1))\<rparr>
      else Inl IndexError)"

text \<open>\<open>torch.cat(xs, dim=1)\<close> of a list: the list must not be empty.\<close>

fun cat_list_dim1 :: "tensor list \<Rightarrow> py_error + tensor" where
  "cat_list_dim1 [] = Inl RuntimeError"
| "cat_list_dim1 [x] = (if 2 \<le> length (shape x) then Inr x else Inl IndexError)"
| "cat_list_dim1 (x # y # ys) =
     (case cat_dim1 x y of Inl e \<Rightarrow> Inl e | Inr xy \<Rightarrow> cat_list_dim1 (xy # ys))"

text \<open>
  \<open>site_inputs[:, i, :, :c]\<close>: the slice of site \<open>i\<close>, cut to at most
  \<open>c\<close> entries along the last of the four dimensions.
\<close>

definition site_slice :: "tensor \<Rightarrow> nat \<Rightarrow> nat \<Rightarrow> py_error + tensor" where
  "site_slice x i c =
     (if 4 \<le> length (shape x) \<and> i < shape x ! 1
      then Inr \<lparr>shape = [shape x ! 0, shape x ! 2, min c (shape x ! 3)] @ drop 4 (shape x),
                 elem = (\<lambda>idx. elem x (take 1 idx @ [i] @ drop 1 idx))\<rparr>
      else Inl IndexError)"

subsection \<open>CrossSiteTemporalAttention\<close>

text \<open>
  \<open>nn.MultiheadAttention(embed_dim, num_heads, batch_first=True)\<close>, used for
  self-attention on \<open>(B, L, embed_dim)\<close> or on an unbatched
  \<open>(L, embed_dim)\<close>; the output has the shape of the input.  The constructor needs positive arguments and \<open>embed_dim\<close>
  divisible by \<open>num_heads\<close>.
\<close>

record MultiheadAttention =
  embed_dim :: nat
  num_heads :: nat
  mha_fn :: vfun

definition MultiheadAttention_init :: "vfun \<Rightarrow> nat \<Rightarrow> nat \<Rightarrow> py_error + MultiheadAttention" where
  "MultiheadAttention_init f e h =
     (if e = 0 \<or> h = 0 then Inl ValueError
      else if e mod h \<noteq> 0 then Inl AssertionError
      else Inr \<lparr>embed_dim = e, num_heads = h, mha_fn = f\<rparr>)"

definition MultiheadAttention_forward :: "MultiheadAttention \<Rightarrow> tensor \<Rightarrow> py_error + tensor" where
  "MultiheadAttention_forward m x =
     (case shape x of
        [b, l, e] \<Rightarrow> if e = embed_dim m then Inr \<lparr>shape = shape x, elem = mha_fn m x\<rparr>
                      else Inl AssertionError
      | [l, e] \<Rightarrow> if e = embed_dim m then Inr \<lparr>shape = shape x, elem = mha_fn m x\<rparr>
                   else Inl AssertionError
      | _ \<Rightarrow> Inl AssertionError)"

text \<open>
  \<^verbatim>\<open>
    def __init__(self, hidden_size, num_heads=4):
        self.site_attention = nn.MultiheadAttention(hidden_size, num_heads, batch_first=True)
        self.temporal_attention = nn.MultiheadAttention(hidden_size, num_heads, batch_first=True)
        self.norm1 = nn.LayerNorm(hidden_size)
        self.norm2 = nn.LayerNorm(hidden_size)

    def forward(self, site_features):
        stacked = torch.stack(site_features, dim=1)
        N, num_sites, L, C = stacked.shape
        reshaped = stacked.transpose(1, 2).reshape(N*L, num_sites, C)
        site_attn, _ = self.site_attention(reshaped, reshaped, reshaped)
        site_attn = self.norm1(site_attn + reshaped)
        temporal_input = site_attn.reshape(N, L, num_sites, C).transpose(1, 2)
        temporal_input = temporal_input.reshape(N*num_sites, L, C)
        temporal_attn, _ = self.temporal_attention(temporal_input, temporal_input, temporal_input)
        temporal_attn = self.norm2(temporal_attn + temporal_input)
        output = temporal_attn.reshape(N, num_sites, L, C)
        return [output[:, i, :, :] for i in range(num_sites)]
  \<close>
\<close>

record CrossSiteTemporalAttention =
  site_attention :: MultiheadAttention
  temporal_attention :: MultiheadAttention
  norm1 :: layer
  norm2 :: layer

definition CrossSiteTemporalAttention_init ::
  "weights \<Rightarrow> nat \<Rightarrow> nat \<Rightarrow> py_error + CrossSiteTemporalAttention" where
  "CrossSiteTemporalAttention_init w hidden heads =
     (case MultiheadAttention_init (w [0]) hidden heads of Inl e \<Rightarrow> Inl e | Inr sa \<Rightarrow>
      case MultiheadAttention_init (w [1]) hidden heads of Inl e \<Rightarrow> Inl e | Inr ta \<Rightarrow>
      Inr \<lparr>site_attention = sa, temporal_attention = ta,
           norm1 = LayerNorm hidden (w [2]), norm2 = LayerNorm hidden (w [3])\<rparr>)"

text \<open>One mixing stage, \<open>norm(attention(x, x, x)[0] + x)\<close>.\<close>

definition attend_add_norm :: "MultiheadAttention \<Rightarrow> layer \<Rightarrow> tensor \<Rightarrow> py_error + tensor" where
  "attend_add_norm attention nrm x =
     (case MultiheadAttention_forward attention x of
        Inl e \<Rightarrow> Inl e
      | Inr a \<Rightarrow> (case tensor_add a x of Inl e \<Rightarrow> Inl e | Inr ax \<Rightarrow> layer_forward nrm ax))"

text \<open>\<open>x.reshape(s).transpose(1, 2).reshape(s')\<close> and \<open>x.transpose(1, 2).reshape(s')\<close>.\<close>

definition transpose_reshape :: "nat list \<Rightarrow> tensor \<Rightarrow> py_error + tensor" where
  "transpose_reshape s' x =
     (case transpose_dims 1 2 x of Inl e \<Rightarrow> Inl e | Inr y \<Rightarrow> reshape s' y)"

definition reshape_transpose_reshape :: "nat list \<Rightarrow> nat list \<Rightarrow> tensor \<Rightarrow> py_error + tensor" where
  "reshape_transpose_reshape s s' x =
     (case reshape s x of Inl e \<Rightarrow> Inl e | Inr y \<Rightarrow> transpose_reshape s' y)"

definition CrossSiteTemporalAttention_forward ::
  "CrossSiteTemporalAttention \<Rightarrow> tensor list \<Rightarrow> py_error + tensor list" where
  "CrossSiteTemporalAttention_forward m site_features =
     (case stack_dim1 site_features of
        Inl e \<Rightarrow> Inl e
      | Inr stacked \<Rightarrow>
         (case shape stacked of
            [N, sites, L, C] \<Rightarrow>
              (case transpose_reshape [N * L, sites, C] stacked of
                 Inl e \<Rightarrow> Inl e
               | Inr reshaped \<Rightarrow>
                  (case attend_add_norm (site_attention m) (norm1 m) reshaped of
                     Inl e \<Rightarrow> Inl e
                   | Inr site_attn \<Rightarrow>
                      (case reshape_transpose_reshape [N, L, sites, C] [N * sites, L, C] site_attn of
                         Inl e \<Rightarrow> Inl e
                       | Inr temporal_input \<Rightarrow>
                          (case attend_add_norm (temporal_attention m) (norm2 m) temporal_input of
                             Inl e \<Rightarrow> Inl e
                           | Inr temporal_attn \<Rightarrow>
                              (case reshape [N, sites, L, C] temporal_attn of
                                 Inl e \<Rightarrow> Inl e
                               | Inr output \<Rightarrow> Inr (map (select_dim1 output) [0..<sites]))))))
          | _ \<Rightarrow> Inl ValueError))"

section \<open>Parameters of the multi-site network (network\_joint.py)\<close>

text \<open>
  A parameter is a tensor of numbers (\<open>data\<close>, kept abstract) with its
  trainability flag.  The parameter store of a \<open>MultiSitePulseDetectionNet\<close>
  holds, per registered sub-module, the list that \<open>parameters()\<close> yields:
  one list per entry of \<open>site_networks\<close>, the list of
  \<open>cross_site_attention\<close> (empty when fusion is disabled) and one list per
  entry of \<open>ptt_regression_heads\<close>, keyed \<open>i_j\<close>.
\<close>

record 'v param =
  data :: 'v
  requires_grad :: bool

record 'v MultiSite_parameters =
  site_networks_params :: "'v param list list"
  cross_site_attention_params :: "'v param list"
  ptt_regression_heads_params :: "(string \<times> 'v param list) list"

text \<open>
  \<^verbatim>\<open>
    def unfreeze_site(self, site_idx):
        for param in self.site_networks[site_idx].parameters():
            param.requires_grad = True

    def freeze_site(self, site_idx):
        for param in self.site_networks[site_idx].parameters():
            param.requires_grad = False

    def freeze_all_sites(self):
        for i in range(self.num_sites):
            self.freeze_site(i)
  \<close>
\<close>

definition set_requires_grad :: "bool \<Rightarrow> 'v param list \<Rightarrow> 'v param list" where
  "set_requires_grad b ps = map (\<lambda>p. p\<lparr>requires_grad := b\<rparr>) ps"

definition set_site_grad ::
  "bool \<Rightarrow> 'v MultiSite_parameters \<Rightarrow> int \<Rightarrow> py_error + 'v MultiSite_parameters" where
  "set_site_grad b m site_idx =
     (case abs_index (length (site_networks_params m)) site_idx of
        Inl e \<Rightarrow> Inl e
      | Inr i \<Rightarrow>
          Inr (m\<lparr>site_networks_params :=
                   (site_networks_params m)[i := set_requires_grad b (site_networks_params m ! i)]\<rparr>))"

definition unfreeze_site ::
  "'v MultiSite_parameters \<Rightarrow> int \<Rightarrow> py_error + 'v MultiSite_parameters" where
  "unfreeze_site m site_idx = set_site_grad True m site_idx"

definition freeze_site ::
  "'v MultiSite_parameters \<Rightarrow> int \<Rightarrow> py_error + 'v MultiSite_parameters" where
  "freeze_site m site_idx = set_site_grad False m site_idx"

fun freeze_sites_from ::
  "'v MultiSite_parameters \<Rightarrow> nat list \<Rightarrow> py_error + 'v MultiSite_parameters" where
  "freeze_sites_from m [] = Inr m"
| "freeze_sites_from m (i # is) =
     (case freeze_site m (int i) of Inl e \<Rightarrow> Inl e | Inr m' \<Rightarrow> freeze_sites_from m' is)"

definition freeze_all_sites ::
  "'v MultiSite_parameters \<Rightarrow> py_error + 'v MultiSite_parameters" where
  "freeze_all_sites m = freeze_sites_from m [0..<length (site_networks_params m)]"

section \<open>Loading pretrained parameters (network\_joint.py)\<close>

text \<open>
  \<^verbatim>\<open>
    def load_pretrained(self, paths):
        for network, path in zip(self.site_networks, paths):
            state_dict = torch.load(path)['state_dict']
            new_state_dict = {k.replace('model.', ''): v for k, v in state_dict.items()}
            network.load_state_dict(new_state_dict)
  \<close>
  Python's \<open>str.replace(old, new)\<close> scans the string from the left and
  replaces every non-overlapping occurrence of \<open>old\<close>; with an empty
  \<open>old\<close> it inserts \<open>new\<close> before every character and at the end.
\<close>


function replace_nonempty :: "string \<Rightarrow> string \<Rightarrow> string \<Rightarrow> string" where
  "replace_nonempty old new s =
     (if s = [] then []
      else if old \<noteq> [] \<and> prefix old s
        then new @ replace_nonempty old new (drop (length old) s)
        else hd s # replace_nonempty old new (tl s))"
  by pat_completeness auto
termination
  by (relation "measure (\<lambda>(old, new, s). length s)") auto

declare replace_nonempty.simps [simp del]

definition str_replace :: "string \<Rightarrow> string \<Rightarrow> string \<Rightarrow> string" where
  "str_replace old new s =
     (if old = [] then new @ concat (map (\<lambda>c. c # new) s) else replace_nonempty old new s)"

definition rename_key :: "string \<Rightarrow> string" where
  "rename_key k = str_replace ''model.'' '''' k"

type_synonym 'v state_dict = "(string \<times> 'v) list"
type_synonym 'v checkpoint = "(string \<times> 'v state_dict) list"

definition torch_load :: "(string \<Rightarrow> 'v checkpoint option) \<Rightarrow> string \<Rightarrow> py_error + 'v checkpoint" where
  "torch_load files path = (case files path of None \<Rightarrow> Inl FileNotFoundError | Some ck \<Rightarrow> Inr ck)"

definition dict_getitem :: "(string \<times> 'a) list \<Rightarrow> string \<Rightarrow> py_error + 'a" where
  "dict_getitem d k = (case map_of d k of None \<Rightarrow> Inl KeyError | Some v \<Rightarrow> Inr v)"

definition renamed_state_dict :: "'v state_dict \<Rightarrow> 'v state_dict" where
  "renamed_state_dict sd = foldl (\<lambda>d (k, v). AList.update (rename_key k) v d) [] sd"

text \<open>
  \<open>network.load_state_dict(sd)\<close> (strict): every entry of the network is
  looked up in \<open>sd\<close>.  A saved tensor of one dimension is accepted for an
  entry of no dimension and its element 0 is taken (indexing an empty one
  raises \<open>IndexError\<close> at once); otherwise the shapes must agree.  A
  missing key, an unexpected key or a shape mismatch raises
  \<open>RuntimeError\<close> after all entries were visited.  \<open>shp\<close> gives the shape
  of a stored tensor and \<open>first_item\<close> its element 0.
\<close>

definition entry_index_error :: "('v \<Rightarrow> nat list) \<Rightarrow> 'v state_dict \<Rightarrow> string \<times> 'v \<Rightarrow> bool" where
  "entry_index_error shp sd = (\<lambda>(k, v).
     case map_of sd k of None \<Rightarrow> False | Some v' \<Rightarrow> shp v = [] \<and> shp v' = [0])"

definition entry_loads :: "('v \<Rightarrow> nat list) \<Rightarrow> 'v state_dict \<Rightarrow> string \<times> 'v \<Rightarrow> bool" where
  "entry_loads shp sd = (\<lambda>(k, v).
     case map_of sd k of
       None \<Rightarrow> False
     | Some v' \<Rightarrow> (shp v = [] \<and> length (shp v') = 1) \<or> shp v' = shp v)"

definition loaded_entry ::
  "('v \<Rightarrow> nat list) \<Rightarrow> ('v \<Rightarrow> 'v) \<Rightarrow> 'v state_dict \<Rightarrow> string \<times> 'v \<Rightarrow> string \<times> 'v" where
  "loaded_entry shp first_item sd = (\<lambda>(k, v).
     case map_of sd k of
       None \<Rightarrow> (k, v)
     | Some v' \<Rightarrow> (k, if shp v = [] \<and> length (shp v') = 1 then first_item v' else v'))"

definition load_state_dict ::
  "('v \<Rightarrow> nat list) \<Rightarrow> ('v \<Rightarrow> 'v) \<Rightarrow> 'v state_dict \<Rightarrow> 'v state_dict \<Rightarrow> py_error + 'v state_dict" where
  "load_state_dict shp first_item net sd =
     (if list_ex (entry_index_error shp sd) net then Inl IndexError
      else if list_all (\<lambda>(k, v). k \<in> set (map fst net)) sd \<and> list_all (entry_loads shp sd) net
      then Inr (map (loaded_entry shp first_item sd) net)
      else Inl RuntimeError)"

fun load_pretrained ::
  "('v \<Rightarrow> nat list) \<Rightarrow> ('v \<Rightarrow> 'v) \<Rightarrow> (string \<Rightarrow> 'v checkpoint option)
     \<Rightarrow> 'v state_dict list \<Rightarrow> string list \<Rightarrow> py_error + 'v state_dict list" where
  "load_pretrained shp first_item files (network # networks) (path # paths) =
     (case torch_load files path of Inl e \<Rightarrow> Inl e | Inr ck \<Rightarrow>
      (case dict_getitem ck ''state_dict'' of Inl e \<Rightarrow> Inl e | Inr sd \<Rightarrow>
      (case load_state_dict shp first_item network (renamed_state_dict sd) of Inl e \<Rightarrow> Inl e | Inr network' \<Rightarrow>
      (case load_pretrained shp first_item files networks paths of Inl e \<Rightarrow> Inl e | Inr rest \<Rightarrow>
         Inr (network' # rest)))))"
| "load_pretrained shp first_item files networks paths = Inr networks"

section \<open>Verified properties\<close>

subsection \<open>Encoder and decoder stacks\<close>

lemma conv_odd:
  assumes "odd (k::nat)"
  shows "conv_fits t k (k div 2) \<longleftrightarrow> 0 < t" and "0 < t \<Longrightarrow> conv_extent t k (k div 2) = t"
  using assms by (auto simp: conv_fits_def conv_extent_def elim!: oddE)

lemma Conv1d_batched:
  assumes "shape x = [n, c, t]"
  shows "layer_forward (Conv1d cin cout k p f) x =
           (if cin \<noteq> 0 \<and> cout \<noteq> 0 \<and> k \<noteq> 0 \<and> c = cin \<and> conv_fits t k p
            then Inr \<lparr>shape = [n, cout, conv_extent t k p], elem = f x\<rparr>
            else Inl RuntimeError)"
  using assms by simp

lemma Conv1d_odd_batched:
  assumes "odd k" and "shape x = [n, c, t]"
  shows "layer_forward (Conv1d cin cout k (k div 2) f) x =
           (if cin \<noteq> 0 \<and> cout \<noteq> 0 \<and> c = cin \<and> 0 < t
            then Inr \<lparr>shape = [n, cout, t], elem = f x\<rparr>
            else Inl RuntimeError)"
proof -
  have "k \<noteq> 0" using assms(1) by (auto elim: oddE)
  then show ?thesis
    unfolding Conv1d_batched [OF assms(2)] using conv_odd [OF assms(1), of t] by auto
qed

lemma BatchNorm1d_batched:
  assumes "shape x = [n, c, t]"
  shows "layer_forward (BatchNorm1d nf True f) x =
           (if c \<noteq> nf then Inl RuntimeError
            else if n * t = 1 then Inl ValueError
            else Inr \<lparr>shape = [n, c, t], elem = f x\<rparr>)"
  using assms by (simp add: one_value_per_channel_def)

lemma conv_block_forward:
  assumes "odd ks" and "shape x = [n, ch, t]"
  shows "\<exists>g. Sequential_forward
           [Conv1d a b ks (ks div 2) f1, BatchNorm1d b True f2, ReLU,
            Conv1d b c ks (ks div 2) f3, BatchNorm1d c True f4, ReLU] x =
           (if a = 0 \<or> b = 0 \<or> ch \<noteq> a \<or> t = 0 then Inl RuntimeError
            else if n * t = 1 then Inl ValueError
            else if c = 0 then Inl RuntimeError
            else Inr \<lparr>shape = [n, c, t], elem = g\<rparr>)"
  by (simp add: Conv1d_odd_batched [OF assms(1)] BatchNorm1d_batched assms(2)
           del: layer_forward.simps(4,5))

lemma EncoderBlock_forward_shape:
  assumes "odd ks" and "0 < cin" and "0 < cout" and "shape x = [n, cin, t]" and "2 \<le> t"
  shows "\<exists>p f. EncoderBlock_forward (EncoderBlock_init w cin cout ks) x = Inr (p, f)
           \<and> shape p = [n, cout, t div 2] \<and> shape f = [n, cout, t]"
proof -
  have nt: "n * t \<noteq> 1" using assms(5) by (cases n) auto
  have half: "(t - 2) div 2 + 1 = t div 2" using assms(5) by presburger
  from conv_block_forward [OF assms(1,4), of cin cout "w [0, 0]" "w [0, 1]" cout "w [0, 3]" "w [0, 4]"]
  obtain g where
    "Sequential_forward (enc_conv (EncoderBlock_init w cin cout ks)) x
       = Inr \<lparr>shape = [n, cout, t], elem = g\<rparr>"
    using assms(2,3,5) nt by (auto simp: EncoderBlock_init_def)
  then show ?thesis
    using assms(5) half by (simp add: EncoderBlock_forward_def EncoderBlock_init_def)
qed

lemma EncoderBlock_forward_success:
  assumes "odd ks" and "shape x = [n, c, t]"
    and "EncoderBlock_forward (EncoderBlock_init w cin cout ks) x = Inr (p, f)"
  shows "c = cin \<and> 0 < cin \<and> 0 < cout \<and> 2 \<le> t
           \<and> shape p = [n, cout, t div 2] \<and> shape f = [n, cout, t]"
proof -
  have half: "2 \<le> t \<Longrightarrow> (t - 2) div 2 + 1 = t div 2" by presburger
  from assms(3) obtain f' where
    conv: "Sequential_forward (enc_conv (EncoderBlock_init w cin cout ks)) x = Inr f'"
    and pool: "layer_forward (MaxPool1d 2) f' = Inr p" and ff: "f = f'"
    by (auto simp: EncoderBlock_forward_def EncoderBlock_init_def split: sum.splits)
  from conv_block_forward [OF assms(1,2), of cin cout "w [0, 0]" "w [0, 1]" cout "w [0, 3]" "w [0, 4]"] conv
  have "c = cin \<and> 0 < cin \<and> 0 < cout \<and> shape f' = [n, cout, t]"
    by (auto simp: EncoderBlock_init_def split: if_splits)
  then show ?thesis
    using pool ff half by (auto split: if_splits)
qed

lemma DecoderBlock_forward_shape:
  assumes "odd ks" and "0 < cin" and "0 < cout"
    and "shape x = [n, cin, u]" and "0 < u" and "shape skip = [n, cin, 2 * u]"
  shows "\<exists>y. DecoderBlock_forward (DecoderBlock_init w cin cout ks) x skip = Inr y
           \<and> shape y = [n, cout, 2 * u]"
proof -
  have nt: "n * (2 * u) \<noteq> 1" using assms(5) by (cases n) auto
  have up: "(u - 1) * 2 + 2 = 2 * u" using assms(5) by (cases u) auto
  define x1 where "x1 = \<lparr>shape = [n, cin, 2 * u], elem = w [0] x\<rparr>"
  have tc: "layer_forward (transposed_conv (DecoderBlock_init w cin cout ks)) x = Inr x1"
    using assms(2,4,5) up by (simp add: DecoderBlock_init_def x1_def)
  obtain x2 where ct: "cat_dim1 x1 skip = Inr x2" and s2: "shape x2 = [n, cin * 2, 2 * u]"
    using assms(6) by (simp add: cat_dim1_def x1_def)
  from conv_block_forward [OF assms(1) s2, of "cin * 2" cin "w [1, 0]" "w [1, 1]" cout "w [1, 3]" "w [1, 4]"]
  obtain g where
    "Sequential_forward (dec_conv (DecoderBlock_init w cin cout ks)) x2
       = Inr \<lparr>shape = [n, cout, 2 * u], elem = g\<rparr>"
    using assms(2,3,5) nt by (auto simp: DecoderBlock_init_def)
  then show ?thesis
    using tc ct by (simp add: DecoderBlock_forward_def)
qed

lemma DecoderBlock_forward_success:
  assumes "odd ks" and "shape x = [n, c, u]"
    and "DecoderBlock_forward (DecoderBlock_init w cin cout ks) x skip = Inr y"
  shows "c = cin \<and> 0 < cin \<and> 0 < cout \<and> 0 < u
           \<and> shape skip = [n, cin, 2 * u] \<and> shape y = [n, cout, 2 * u]"
proof -
  have up: "0 < u \<Longrightarrow> (u - 1) * 2 + 2 = 2 * u" by presburger
  from assms(3) obtain x1 x2 where
    tc: "layer_forward (ConvTranspose1d cin cin 2 2 (w [0])) x = Inr x1"
    and ct: "cat_dim1 x1 skip = Inr x2"
    and conv: "Sequential_forward (dec_conv (DecoderBlock_init w cin cout ks)) x2 = Inr y"
    by (auto simp: DecoderBlock_forward_def DecoderBlock_init_def split: sum.splits)
  from tc assms(2) have cu: "c = cin" "0 < cin" "0 < u" and s1: "shape x1 = [n, cin, 2 * u]"
    using up by (auto split: if_splits)
  from ct s1 obtain a b d where sk: "shape skip = [a, b, d]"
    unfolding cat_dim1_def
    by (cases "shape skip" rule: list.exhaust)
       (auto split: if_splits simp: length_Suc_conv numeral_3_eq_3)
  with ct s1 have sk': "a = n" "d = 2 * u" and s2: "shape x2 = [n, cin + b, 2 * u]"
    unfolding cat_dim1_def by (auto split: if_splits)
  from conv_block_forward [OF assms(1) s2, of "cin * 2" cin "w [1, 0]" "w [1, 1]" cout "w [1, 3]" "w [1, 4]"] conv
  have "cin + b = cin * 2 \<and> 0 < cout \<and> shape y = [n, cout, 2 * u]"
    by (auto simp: DecoderBlock_init_def split: if_splits)
  with cu sk sk' show ?thesis by simp
qed

lemma run_encoders_acc:
  "run_encoders bs x acc =
     (case run_encoders bs x [] of Inl e \<Rightarrow> Inl e | Inr (y, s) \<Rightarrow> Inr (y, acc @ s))"
proof (induction bs arbitrary: x acc)
  case Nil
  then show ?case by simp
next
  case (Cons b bs)
  show ?case
  proof (cases "EncoderBlock_forward b x")
    case (Inl e)
    then show ?thesis by simp
  next
    case (Inr pf)
    obtain p f where pf: "pf = (p, f)" by (cases pf)
    show ?thesis
      using Inr pf Cons.IH [of p "acc @ [f]"] Cons.IH [of p "[f]"]
      by (simp split: sum.splits)
  qed
qed

lemma run_decoders_append:
  "run_decoders (ds @ ds') z =
     (case run_decoders ds z of Inl e \<Rightarrow> Inl e | Inr z' \<Rightarrow> run_decoders ds' z')"
  by (induction ds arbitrary: z) (auto split: sum.splits)

lemma length_make_decoder_blocks [simp]:
  "length (make_decoder_blocks w j ks c outs) = length outs"
  by (induction outs arbitrary: j c) simp_all

lemma length_make_encoder_blocks [simp]:
  "length (make_encoder_blocks w i ks c hs) = length hs"
  by (induction hs arbitrary: i c) simp_all

lemma make_decoder_blocks_snoc:
  "make_decoder_blocks w j ks c (outs @ [out]) =
     make_decoder_blocks w j ks c outs
       @ [DecoderBlock_init (sub w (j + length outs)) (last (c # outs)) out ks]"
  by (induction outs arbitrary: j c) simp_all

lemma decoder_outs_Cons:
  "tl (rev (h # hs) @ [cf]) = tl (rev hs @ [h]) @ [cf]"
  by (cases "rev hs") simp_all

lemma last_decoder_outs: "last (last (c0 # h # hs) # tl (rev hs @ [h])) = h"
  by (cases hs rule: rev_cases) simp_all

lemma encoder_decoder_stack:
  assumes "odd ks"
  shows "shape x = [n, c0, t] \<Longrightarrow> 0 < t \<Longrightarrow> 2 ^ length hs dvd t \<Longrightarrow>
     0 < c0 \<Longrightarrow> \<forall>h\<in>set hs. 0 < h \<Longrightarrow> 0 < cf \<Longrightarrow>
     \<exists>x' skips. run_encoders (make_encoder_blocks w1 i ks c0 hs) x [] = Inr (x', skips)
       \<and> length skips = length hs
       \<and> shape x' = [n, last (c0 # hs), t div 2 ^ length hs]
       \<and> (\<forall>m<length hs. shape (skips ! m) = [n, hs ! m, t div 2 ^ m])
       \<and> (\<forall>z. shape z = shape x' \<longrightarrow>
             (\<exists>y. run_decoders (zip (make_decoder_blocks w2 j ks (last (c0 # hs)) (tl (rev hs @ [cf])))
                                     (rev skips)) z = Inr y
                  \<and> shape y = [n, if hs = [] then c0 else cf, t]))"
proof (induction hs arbitrary: x c0 t i cf)
  case Nil
  then show ?case by simp
next
  case (Cons h hs)
  from Cons.prems have ev: "even t" and dv: "2 ^ length hs dvd t div 2"
    by (auto elim!: dvdE)
  with Cons.prems have t2: "2 \<le> t" and half: "0 < t div 2" and tt: "2 * (t div 2) = t"
    by (auto elim!: evenE)
  from Cons.prems(5) have h: "0 < h" and hs: "\<forall>h\<in>set hs. 0 < h" by simp_all
  from EncoderBlock_forward_shape [OF assms Cons.prems(4) h Cons.prems(1) t2, of "sub w1 i"]
  obtain p f where
    enc: "EncoderBlock_forward (EncoderBlock_init (sub w1 i) c0 h ks) x = Inr (p, f)"
    and sp: "shape p = [n, h, t div 2]" and sf: "shape f = [n, h, t]" by blast
  from Cons.IH [OF sp half dv h hs h, of "Suc i"]
  obtain x' skips where
    rest: "run_encoders (make_encoder_blocks w1 (Suc i) ks h hs) p [] = Inr (x', skips)"
    and len: "length skips = length hs"
    and sx: "shape x' = [n, last (h # hs), t div 2 div 2 ^ length hs]"
    and sk: "\<forall>m<length hs. shape (skips ! m) = [n, hs ! m, t div 2 div 2 ^ m]"
    and dec: "\<forall>z. shape z = shape x' \<longrightarrow>
             (\<exists>y. run_decoders (zip (make_decoder_blocks w2 j ks (last (h # hs)) (tl (rev hs @ [h])))
                                     (rev skips)) z = Inr y
                  \<and> shape y = [n, if hs = [] then h else h, t div 2])"
    by blast
  have run: "run_encoders (make_encoder_blocks w1 i ks c0 (h # hs)) x [] = Inr (x', f # skips)"
    using enc rest by (simp add: run_encoders_acc [of _ p "[f]"])
  have divs: "\<And>m. t div 2 div 2 ^ m = t div 2 ^ Suc m"
    by (simp add: div_mult2_eq)
  have skips: "\<forall>m<length (h # hs). shape ((f # skips) ! m) = [n, (h # hs) ! m, t div 2 ^ m]"
  proof (intro allI impI)
    fix m assume "m < length (h # hs)"
    then show "shape ((f # skips) ! m) = [n, (h # hs) ! m, t div 2 ^ m]"
      using sf sk divs by (cases m) auto
  qed
  let ?d = "DecoderBlock_init (sub w2 (j + length (tl (rev hs @ [h])))) h cf ks"
  let ?ds = "make_decoder_blocks w2 j ks (last (h # hs)) (tl (rev hs @ [h]))"
  have blocks: "make_decoder_blocks w2 j ks (last (c0 # h # hs)) (tl (rev (h # hs) @ [cf])) = ?ds @ [?d]"
  proof -
    have "last (c0 # h # hs) = last (h # hs)" by simp
    then show ?thesis
      using last_decoder_outs [of c0 h hs]
      by (simp only: decoder_outs_Cons make_decoder_blocks_snoc)
  qed
  have lds: "length ?ds = length (rev skips)" using len by simp
  have decs: "\<forall>z. shape z = shape x' \<longrightarrow>
      (\<exists>y. run_decoders (zip (make_decoder_blocks w2 j ks (last (c0 # h # hs)) (tl (rev (h # hs) @ [cf])))
                              (rev (f # skips))) z = Inr y
           \<and> shape y = [n, if h # hs = [] then c0 else cf, t])"
  proof (intro allI impI)
    fix z :: tensor assume "shape z = shape x'"
    with dec obtain y' where
      y': "run_decoders (zip ?ds (rev skips)) z = Inr y'" and sy': "shape y' = [n, h, t div 2]"
      by auto
    have sf': "shape f = [n, h, 2 * (t div 2)]" using sf tt by simp
    from DecoderBlock_forward_shape [OF assms h Cons.prems(6) sy' half sf',
        of "sub w2 (j + length (tl (rev hs @ [h])))"]
    obtain y where "DecoderBlock_forward ?d y' f = Inr y" and "shape y = [n, cf, 2 * (t div 2)]"
      by blast
    then show "\<exists>y. run_decoders (zip (make_decoder_blocks w2 j ks (last (c0 # h # hs)) (tl (rev (h # hs) @ [cf])))
                              (rev (f # skips))) z = Inr y
           \<and> shape y = [n, if h # hs = [] then c0 else cf, t]"
      unfolding blocks using y' lds tt by (simp add: run_decoders_append)
  qed
  show ?case
    using run len sx skips decs divs by (intro exI [of _ x'] exI [of _ "f # skips"]) simp
qed

lemma run_encoders_length:
  "run_encoders bs x acc = Inr (x', skips) \<Longrightarrow> length skips = length acc + length bs"
proof (induction bs arbitrary: x acc)
  case Nil
  then show ?case by simp
next
  case (Cons b bs)
  then show ?case by (auto split: sum.splits prod.splits)
qed

lemma run_decoders_snoc_success:
  assumes "run_decoders (ds @ [(d, s)]) z = Inr y"
  shows "\<exists>y'. run_decoders ds z = Inr y' \<and> DecoderBlock_forward d y' s = Inr y"
  using assms by (auto simp: run_decoders_append split: sum.splits)

lemma encoder_decoder_stack_success:
  assumes "odd ks"
  shows "run_encoders (make_encoder_blocks w1 i ks c0 hs) x [] = Inr (x', skips) \<Longrightarrow>
     shape x = [n, c, t] \<Longrightarrow>
     length outs = length hs \<Longrightarrow> shape z = [n', c', u] \<Longrightarrow> shape x' = [n'', c'', u] \<Longrightarrow>
     run_decoders (zip (make_decoder_blocks w2 j ks cd outs) (rev skips)) z = Inr y \<Longrightarrow>
     \<exists>m d. t = 2 ^ length hs * u \<and> shape y = [m, d, t]"
proof (induction hs arbitrary: i c0 x c t skips outs y)
  case Nil
  then show ?case by simp
next
  case (Cons h hs)
  from Cons.prems(1) obtain p f where
    enc: "EncoderBlock_forward (EncoderBlock_init (sub w1 i) c0 h ks) x = Inr (p, f)"
    and rest: "run_encoders (make_encoder_blocks w1 (Suc i) ks h hs) p [f] = Inr (x', skips)"
    by (auto split: sum.splits prod.splits)
  from rest obtain s' where
    rest': "run_encoders (make_encoder_blocks w1 (Suc i) ks h hs) p [] = Inr (x', s')"
    and skips: "skips = f # s'"
    by (subst (asm) run_encoders_acc) (auto split: sum.splits prod.splits)
  have ls: "length s' = length hs"
    using run_encoders_length [OF rest'] by simp
  from EncoderBlock_forward_success [OF assms Cons.prems(2) enc]
  have sp: "shape p = [n, h, t div 2]" and sf: "shape f = [n, h, t]" by simp_all
  from Cons.prems(3) obtain outs' out where outs: "outs = outs' @ [out]" and lo: "length outs' = length hs"
    by (cases outs rule: rev_cases) auto
  let ?ds = "make_decoder_blocks w2 j ks cd outs'"
  let ?d = "DecoderBlock_init (sub w2 (j + length outs')) (last (cd # outs')) out ks"
  have "zip (make_decoder_blocks w2 j ks cd outs) (rev skips) = zip ?ds (rev s') @ [(?d, f)]"
    unfolding outs skips make_decoder_blocks_snoc using lo ls by simp
  with Cons.prems(6) obtain y' where
    y': "run_decoders (zip ?ds (rev s')) z = Inr y'" and dl: "DecoderBlock_forward ?d y' f = Inr y"
    using run_decoders_snoc_success by metis
  from Cons.IH [OF rest' sp lo Cons.prems(4,5) y'] obtain m d where
    tp: "t div 2 = 2 ^ length hs * u" and sy': "shape y' = [m, d, t div 2]"
    by auto
  from DecoderBlock_forward_success [OF assms sy' dl] sf obtain m' d' where
    "t = 2 * (t div 2)" and "shape y = [m', d', t]"
    by auto
  then show ?case using tp by auto
qed

text \<open>
  C4 (as amended).  Let the \<open>k\<close> encoder blocks be built with channel
  schedule \<open>hidden_channels\<close> (\<open>k\<close> its length) and the \<open>k\<close> decoder
  blocks with the matching channels, as the constructor of
  \<open>PulseDetectionNet\<close> builds them, with an odd kernel size and positive
  channel counts.  For every input of shape \<open>(n, c0, t)\<close> with \<open>t > 0\<close>
  and \<open>2 ^ k\<close> dividing \<open>t\<close>, the encoder loop returns normally with
  \<open>k\<close> skips, block \<open>m\<close> retaining features of time extent
  \<open>t div 2 ^ m\<close> and the output having time extent \<open>t div 2 ^ k\<close>; and the
  decoder loop, given the skips in reverse creation order and any tensor of
  the encoder output's shape, returns normally a tensor of time extent
  exactly \<open>t\<close>.
\<close>

theorem encoder_decoder_time_symmetry:
  assumes "odd kernel_size"
    and "shape x = [n, c0, t]" and "0 < t" and "2 ^ length hidden_channels dvd t"
    and "0 < c0" and "\<forall>h\<in>set hidden_channels. 0 < h" and "0 < c_out"
  shows "\<exists>x' skips.
       run_encoders (make_encoder_blocks w1 i kernel_size c0 hidden_channels) x [] = Inr (x', skips)
     \<and> length skips = length hidden_channels
     \<and> shape x' = [n, last (c0 # hidden_channels), t div 2 ^ length hidden_channels]
     \<and> (\<forall>m<length hidden_channels. shape (skips ! m) = [n, hidden_channels ! m, t div 2 ^ m])
     \<and> (\<forall>z. shape z = shape x' \<longrightarrow>
           (\<exists>y. run_decoders
                   (zip (make_decoder_blocks w2 j kernel_size (last (c0 # hidden_channels))
                           (tl (rev hidden_channels @ [c_out])))
                        (rev skips)) z = Inr y
                \<and> shape y = [n, if hidden_channels = [] then c0 else c_out, t]))"
  using assms by (rule encoder_decoder_stack)

theorem encoder_decoder_time_symmetry_witness:
  "\<exists>x' skips y.
       run_encoders (make_encoder_blocks (\<lambda>_ _ _. 0) 0 5 8 [64, 128, 256])
         \<lparr>shape = [16, 8, 5000], elem = (\<lambda>_. 0)\<rparr> [] = Inr (x', skips)
     \<and> length skips = 3
     \<and> shape x' = [16, 256, 625]
     \<and> run_decoders (zip (make_decoder_blocks (\<lambda>_ _ _. 0) 0 5 256 [128, 64, 32]) (rev skips)) x' = Inr y
     \<and> shape y = [16, 32, 5000]"
proof -
  let ?x = "\<lparr>shape = [16, 8, 5000], elem = (\<lambda>_. 0)\<rparr>"
  have a: "odd (5::nat)" by simp
  have b: "shape ?x = [16, 8, 5000]" by simp
  have c: "(0::nat) < 5000" by simp
  have d: "(2::nat) ^ length [64, 128, 256 :: nat] dvd 5000" by simp
  have e: "(0::nat) < 8" by simp
  have f: "\<forall>h\<in>set [64, 128, 256 :: nat]. 0 < h" by simp
  have g: "(0::nat) < 32" by simp
  from encoder_decoder_time_symmetry [OF a b c d e f g, of "\<lambda>_ _ _. 0" 0 "\<lambda>_ _ _. 0" 0]
  obtain x' skips where
    1: "run_encoders (make_encoder_blocks (\<lambda>_ _ _. 0) 0 5 8 [64, 128, 256]) ?x [] = Inr (x', skips)"
    and 2: "length skips = 3" and 3: "shape x' = [16, 256, 625]"
    and 4: "\<forall>z. shape z = shape x' \<longrightarrow>
           (\<exists>y. run_decoders (zip (make_decoder_blocks (\<lambda>_ _ _. 0) 0 5 256 [128, 64, 32]) (rev skips)) z = Inr y
                \<and> shape y = [16, 32, 5000])"
    by auto
  from 4 obtain y where
    "run_decoders (zip (make_decoder_blocks (\<lambda>_ _ _. 0) 0 5 256 [128, 64, 32]) (rev skips)) x' = Inr y"
    and "shape y = [16, 32, 5000]" by blast
  with 1 2 3 show ?thesis by blast
qed

text \<open>
  With kernel size 4, one stage and an input of time extent 8 (divisible by
  \<open>2 ^ 1\<close>), each convolution lengthens the time axis by one: the skip has
  extent 10, and the decoder returns a tensor of time extent 12, not 8.
\<close>

theorem even_kernel_time_extent_counterexample:
  "2 ^ length [16 :: nat] dvd (8 :: nat)
   \<and> map_sum id shape
        (case run_encoders (make_encoder_blocks (\<lambda>_ _ _. 0) 0 4 8 [16])
                \<lparr>shape = [2, 8, 8], elem = (\<lambda>_. 0)\<rparr> [] of
           Inl e \<Rightarrow> Inl e
         | Inr (x', skips) \<Rightarrow>
             run_decoders (zip (make_decoder_blocks (\<lambda>_ _ _. 0) 0 4 16 [32]) (rev skips)) x')
       = Inr [2, 32, 12]"
  by (simp add: EncoderBlock_init_def EncoderBlock_forward_def DecoderBlock_init_def
        DecoderBlock_forward_def conv_fits_def conv_extent_def one_value_per_channel_def
        cat_dim1_def sub_def)

subsection \<open>The forward pass and the sequence length\<close>

lemma run_encoders_rank3:
  assumes "odd ks"
  shows "run_encoders (make_encoder_blocks w i ks c0 hs) x [] = Inr (x', skips) \<Longrightarrow>
         shape x = [n, c, t] \<Longrightarrow> \<exists>c' u. shape x' = [n, c', u]"
proof (induction hs arbitrary: i c0 x c t skips)
  case Nil
  then show ?case by simp
next
  case (Cons h hs)
  from Cons.prems(1) obtain p f where
    enc: "EncoderBlock_forward (EncoderBlock_init (sub w i) c0 h ks) x = Inr (p, f)"
    and rest: "run_encoders (make_encoder_blocks w (Suc i) ks h hs) p [f] = Inr (x', skips)"
    by (auto split: sum.splits prod.splits)
  from rest obtain s' where
    rest': "run_encoders (make_encoder_blocks w (Suc i) ks h hs) p [] = Inr (x', s')"
    by (subst (asm) run_encoders_acc) (auto split: sum.splits prod.splits)
  from EncoderBlock_forward_success [OF assms Cons.prems(2) enc]
  have "shape p = [n, h, t div 2]" by simp
  from Cons.IH [OF rest' this] show ?case .
qed

lemma Conv2d_same_batched:
  assumes "shape x = [n, c, h, w]"
  shows "layer_forward (Conv2d cin cout (5, 7) (2, 3) f) x =
           (if cin \<noteq> 0 \<and> cout \<noteq> 0 \<and> c = cin \<and> 0 < h \<and> 0 < w
            then Inr \<lparr>shape = [n, cout, h, w], elem = f x\<rparr>
            else Inl RuntimeError)"
  using assms by (auto simp: conv_fits_def conv_extent_def)

lemma Sequential_Cons_success:
  "Sequential_forward (l # ls) x = Inr y \<Longrightarrow>
     \<exists>z. layer_forward l x = Inr z \<and> Sequential_forward ls z = Inr y"
  by (auto split: sum.splits)

lemma Conv2d_same_success:
  "layer_forward (Conv2d cin cout (5, 7) (2, 3) f) x = Inr y \<Longrightarrow> shape x = [n, c, h, w] \<Longrightarrow>
     c = cin \<and> 0 < h \<and> 0 < w \<and> shape y = [n, cout, h, w]"
  unfolding Conv2d_same_batched by (auto split: if_splits)

lemma BatchNorm2d_success:
  "layer_forward (BatchNorm2d nf tr f) x = Inr y \<Longrightarrow> shape y = shape x"
  by (auto split: list.splits if_splits)

lemma ReLU_success: "layer_forward ReLU x = Inr y \<Longrightarrow> shape y = shape x"
  by auto

lemma spatial_processing_success:
  assumes "Sequential_forward (spatial_temporal_processing (SpatialReductionPreprocessing_init w ic oc)) x = Inr y"
    and "shape x = [n, c, h, t]"
  shows "c = 1 \<and> 0 < h \<and> 0 < t \<and> shape y = [n, 16, h, t]"
proof -
  have "Sequential_forward
          [Conv2d 1 16 (5, 7) (2, 3) (w [0, 0]), BatchNorm2d 16 True (w [0, 1]), ReLU,
           Conv2d 16 16 (5, 7) (2, 3) (w [0, 3]), BatchNorm2d 16 True (w [0, 4]), ReLU] x = Inr y"
    using assms(1) by (simp only: SpatialReductionPreprocessing_init_def SpatialReductionPreprocessing.simps)
  from Sequential_Cons_success [OF this] obtain z1 where
    1: "layer_forward (Conv2d 1 16 (5, 7) (2, 3) (w [0, 0])) x = Inr z1"
    and "Sequential_forward
          [BatchNorm2d 16 True (w [0, 1]), ReLU,
           Conv2d 16 16 (5, 7) (2, 3) (w [0, 3]), BatchNorm2d 16 True (w [0, 4]), ReLU] z1 = Inr y"
    by blast
  from Sequential_Cons_success [OF this(2)] obtain z2 where
    2: "layer_forward (BatchNorm2d 16 True (w [0, 1])) z1 = Inr z2"
    and "Sequential_forward
          [ReLU, Conv2d 16 16 (5, 7) (2, 3) (w [0, 3]), BatchNorm2d 16 True (w [0, 4]), ReLU] z2 = Inr y"
    by blast
  from Sequential_Cons_success [OF this(2)] obtain z3 where
    3: "layer_forward ReLU z2 = Inr z3"
    and "Sequential_forward
          [Conv2d 16 16 (5, 7) (2, 3) (w [0, 3]), BatchNorm2d 16 True (w [0, 4]), ReLU] z3 = Inr y"
    by blast
  from Sequential_Cons_success [OF this(2)] obtain z4 where
    4: "layer_forward (Conv2d 16 16 (5, 7) (2, 3) (w [0, 3])) z3 = Inr z4"
    and "Sequential_forward [BatchNorm2d 16 True (w [0, 4]), ReLU] z4 = Inr y"
    by blast
  from Sequential_Cons_success [OF this(2)] obtain z5 where
    5: "layer_forward (BatchNorm2d 16 True (w [0, 4])) z4 = Inr z5"
    and "Sequential_forward [ReLU] z5 = Inr y"
    by blast
  from Sequential_Cons_success [OF this(2)] have 6: "layer_forward ReLU z5 = Inr y"
    by simp
  from Conv2d_same_success [OF 1 assms(2)] have
    c: "c = 1" and pos: "0 < h" "0 < t" and s1: "shape z1 = [n, 16, h, t]" by simp_all
  have s3: "shape z3 = [n, 16, h, t]"
    using BatchNorm2d_success [OF 2] ReLU_success [OF 3] s1 by simp
  from Conv2d_same_success [OF 4 s3] have "shape z4 = [n, 16, h, t]" by simp
  with BatchNorm2d_success [OF 5] ReLU_success [OF 6] have "shape y = [n, 16, h, t]" by simp
  with c pos show ?thesis by simp
qed

lemma SpatialReductionPreprocessing_forward_success:
  assumes "SpatialReductionPreprocessing_forward (SpatialReductionPreprocessing_init w ic oc) x = Inr y"
  shows "\<exists>n s t. shape x = [n, s, t] \<and> 0 < s \<and> 0 < t \<and> oc \<le> s \<and> shape y = [n, oc, t]"
proof -
  let ?m = "SpatialReductionPreprocessing_init w ic oc"
  from assms obtain x1 x2 x3 x4 where
    r3: "length (shape x) = 3"
    and u: "unsqueeze1 x = Inr x1"
    and p: "Sequential_forward (spatial_temporal_processing ?m) x1 = Inr x2"
    and k: "topk_dim2 x2 (sr_out_channels ?m) = Inr x3"
    and c: "layer_forward (channel_adjust ?m) x3 = Inr x4"
    and s: "squeeze1 x4 = Inr y"
    unfolding SpatialReductionPreprocessing_forward_def
    by (simp split: sum.splits if_splits)
  from r3 obtain n sp t where sx: "shape x = [n, sp, t]"
    by (auto simp: length_Suc_conv numeral_3_eq_3)
  with u have s1: "shape x1 = [n, 1, sp, t]" by (auto simp: unsqueeze1_def)
  from spatial_processing_success [OF p s1] have pos: "0 < sp" "0 < t" and s2: "shape x2 = [n, 16, sp, t]"
    by simp_all
  have "sr_out_channels ?m = oc" by (simp add: SpatialReductionPreprocessing_init_def)
  with k s2 have le: "oc \<le> sp" and s3: "shape x3 = [n, 16, oc, t]"
    by (auto simp: topk_dim2_def split: if_splits)
  have "channel_adjust ?m = Conv2d 16 1 (1, 1) (0, 0) (w [1])"
    by (simp add: SpatialReductionPreprocessing_init_def)
  with c s3 have s4: "shape x4 = [n, 1, oc, t]"
    by (auto simp: conv_fits_def conv_extent_def split: if_splits)
  from s s4 have "shape y = [n, oc, t]" by (auto simp: squeeze1_def)
  with sx pos le show ?thesis by simp
qed

lemma run_lstm_time:
  assumes "run_lstm net x = Inr y" and "shape x = [a, b, u]"
  shows "\<exists>a' b'. shape y = [a', b', u]"
proof (cases "use_lstm net")
  case False
  with assms show ?thesis by (simp add: run_lstm_def)
next
  case True
  with assms obtain l x1 x2 where
    "transpose_dims 1 2 x = Inr x1" "LSTM_forward l x1 = Inr x2" "transpose_dims 1 2 x2 = Inr y"
    by (simp add: run_lstm_def split: if_splits sum.splits option.splits)
  moreover from this(1) assms(2) have "shape x1 = [a, u, b]"
    by (auto simp: transpose_dims_def swap_dims_def split: if_splits)
  moreover from this calculation(2) have "\<exists>b'. shape x2 = [a, u, b']"
    by (auto simp: LSTM_forward_def split: if_splits)
  ultimately show ?thesis
    by (auto simp: transpose_dims_def swap_dims_def split: if_splits)
qed

lemma PulseDetectionNet_init_blocks:
  assumes "PulseDetectionNet_init w ic s rc hs ks ul lh nl dr = Inr net"
  shows "seq_len net = s"
    and "spatial_processing net = SpatialReductionPreprocessing_init (sub w 0) ic rc"
    and "encoder_blocks net = make_encoder_blocks (sub w 1) 0 ks rc hs"
    and "\<exists>cd. decoder_blocks net = make_decoder_blocks (sub w 3) 0 ks cd (tl (rev hs @ [32]))"
  using assms
  by (auto simp: PulseDetectionNet_init_def Let_def LSTM_init_def split: if_splits sum.splits)

lemma PulseDetectionNet_init_seq_len:
  assumes "PulseDetectionNet_init w ic s rc hs ks ul lh nl dr = Inr net"
  shows "PulseDetectionNet_init w ic s' rc hs ks ul lh nl dr = Inr (net\<lparr>seq_len := s'\<rparr>)"
  using assms
  by (auto simp: PulseDetectionNet_init_def Let_def LSTM_init_def split: if_splits sum.splits)

lemma PulseDetectionNet_forward_success_dvd:
  assumes init: "PulseDetectionNet_init w ic s rc hs ks ul lh nl dr = Inr net"
    and odd: "odd ks"
    and sx: "shape x = [n, t, c]"
    and fwd: "PulseDetectionNet_forward net x = Inr y"
  shows "2 ^ length hs dvd t"
proof -
  from fwd obtain x0 x1 x2 skips x3 x4 where
    tr: "transpose_dims 1 2 x = Inr x0"
    and sp: "SpatialReductionPreprocessing_forward (spatial_processing net) x0 = Inr x1"
    and en: "run_encoders (encoder_blocks net) x1 [] = Inr (x2, skips)"
    and ls: "run_lstm net x2 = Inr x3"
    and de: "run_decoders (zip (decoder_blocks net) (rev skips)) x3 = Inr x4"
    unfolding PulseDetectionNet_forward_def
    by (simp split: sum.splits prod.splits)
  from tr sx have s0: "shape x0 = [n, c, t]"
    by (auto simp: transpose_dims_def swap_dims_def split: if_splits)
  from sp s0 SpatialReductionPreprocessing_forward_success
    [of "sub w 0" ic rc x0 x1] PulseDetectionNet_init_blocks(2) [OF init]
  have s1: "shape x1 = [n, rc, t]" by auto
  note en' = en [unfolded PulseDetectionNet_init_blocks(3) [OF init]]
  from run_encoders_rank3 [OF odd en' s1] obtain c' u where s2: "shape x2 = [n, c', u]" by blast
  from run_lstm_time [OF ls s2] obtain a' b' where s3: "shape x3 = [a', b', u]" by blast
  from PulseDetectionNet_init_blocks(4) [OF init] obtain cd where
    db: "decoder_blocks net = make_decoder_blocks (sub w 3) 0 ks cd (tl (rev hs @ [32]))" by blast
  have len: "length (tl (rev hs @ [32::nat])) = length hs" by simp
  from encoder_decoder_stack_success [OF odd en' s1 len s3 s2 de [unfolded db]]
  have "t = 2 ^ length hs * u" by auto
  then show ?thesis by simp
qed

text \<open>
  C7 (as amended).  The constructor does not look at the relation between
  \<open>seq_len\<close> and the number of encoder stages: whenever it returns a
  network for one \<open>seq_len\<close> it returns the same network, but for the stored
  field, for every other.  An input whose time extent is not divisible by
  \<open>2 ^ k\<close> (\<open>k\<close> stages, odd kernel size) is rejected only when a
  forward pass is run on it: the pass raises.
\<close>

theorem indivisible_length_rejected_only_by_forward:
  assumes "PulseDetectionNet_init w in_channels s reduce_channels hidden_channels kernel_size
             ul lstm_hidden_size lstm_num_layers dr = Inr net"
    and "odd kernel_size"
    and "shape x = [n, t, c]"
    and "\<not> 2 ^ length hidden_channels dvd t"
  shows "seq_len net = s
       \<and> (\<forall>s'. PulseDetectionNet_init w in_channels s' reduce_channels hidden_channels kernel_size
                  ul lstm_hidden_size lstm_num_layers dr = Inr (net\<lparr>seq_len := s'\<rparr>))
       \<and> isl (PulseDetectionNet_forward net x)"
proof -
  have "isl (PulseDetectionNet_forward net x)"
  proof (cases "PulseDetectionNet_forward net x")
    case (Inl e)
    then show ?thesis by simp
  next
    case (Inr y)
    from PulseDetectionNet_forward_success_dvd [OF assms(1,2,3) Inr] assms(4)
    show ?thesis by simp
  qed
  then show ?thesis
    using PulseDetectionNet_init_blocks(1) [OF assms(1)] PulseDetectionNet_init_seq_len [OF assms(1)]
    by simp
qed

theorem indivisible_length_rejected_only_by_forward_witness:
  "\<not> 2 ^ length [64, 128, 256 :: nat] dvd (5001 :: nat)
   \<and> (case default_net 5001 of
        Inl e \<Rightarrow> False
      | Inr net \<Rightarrow> seq_len net = 5001 \<and> default_net 5000 = Inr (net\<lparr>seq_len := 5000\<rparr>)
                   \<and> isl (PulseDetectionNet_forward net \<lparr>shape = [16, 5001, 40], elem = (\<lambda>_. 0)\<rparr>))"
proof -
  obtain net where net: "default_net 5001 = Inr net"
    by (simp add: default_net_def PulseDetectionNet_init_def Let_def LSTM_init_def)
  have a: "odd (5::nat)" by simp
  have b: "shape \<lparr>shape = [16, 5001, 40], elem = (\<lambda>_. 0)\<rparr> = [16, 5001, 40]" by simp
  have c: "\<not> 2 ^ length [64, 128, 256 :: nat] dvd (5001 :: nat)" by simp
  from indivisible_length_rejected_only_by_forward [OF net [unfolded default_net_def] a b c]
  have 1: "seq_len net = 5001"
    and 2: "\<forall>s'. PulseDetectionNet_init (\<lambda>_ _ _. 0) 40 s' 8 [64, 128, 256] 5 True 128 2 (1 / 10)
               = Inr (net\<lparr>seq_len := s'\<rparr>)"
    and 3: "isl (PulseDetectionNet_forward net \<lparr>shape = [16, 5001, 40], elem = (\<lambda>_. 0)\<rparr>)"
    by blast+
  from 2 have "default_net 5000 = Inr (net\<lparr>seq_len := 5000\<rparr>)"
    unfolding default_net_def by blast
  with 1 3 c net show ?thesis by simp
qed

text \<open>
  Construction with sequence length 5001 and three encoder stages
  (\<open>2 ^ 3\<close> does not divide 5001) returns a network: nothing is rejected.
\<close>

theorem construction_accepts_indivisible_seq_len_counterexample:
  "\<not> 2 ^ length [64, 128, 256 :: nat] dvd (5001 :: nat)
   \<and> \<not> isl (PulseDetectionNet_init (\<lambda>_ _ _. 0) 40 5001 8 [64, 128, 256] 5 True 128 2 (1 / 10))"
  by (simp add: PulseDetectionNet_init_def Let_def LSTM_init_def)

subsection \<open>The output of the forward pass\<close>

lemma sigmoid_range: "0 < sigmoid v \<and> sigmoid v < 1"
proof -
  have "0 < exp (- v)" by simp
  then have "0 < 1 + exp (- v)" and "1 < 1 + exp (- v)" by (simp_all add: add_pos_pos)
  then show ?thesis unfolding sigmoid_def by (simp only: zero_less_divide_1_iff divide_less_eq_1_pos simp_thms)
qed

lemma Sequential_forward_append:
  "Sequential_forward (ls @ ls') x =
     (case Sequential_forward ls x of Inl e \<Rightarrow> Inl e | Inr z \<Rightarrow> Sequential_forward ls' z)"
  by (induction ls arbitrary: x) (auto split: sum.splits)

lemma Sequential_forward_Sigmoid_last:
  assumes "Sequential_forward (ls @ [Sigmoid]) x = Inr y"
  shows "\<exists>z::tensor. elem y = (\<lambda>idx. sigmoid (elem z idx))"
  using assms by (auto simp: Sequential_forward_append split: sum.splits)

lemma PulseDetectionNet_init_final:
  assumes "PulseDetectionNet_init w ic s rc hs ks ul lh nl dr = Inr net"
  shows "final net = [Conv1d 32 32 3 1 (w [4, 0]), BatchNorm1d 32 True (w [4, 1]), ReLU,
                      Conv1d 32 1 1 0 (w [4, 3])] @ [Sigmoid]"
  using assms
  by (auto simp: PulseDetectionNet_init_def Let_def LSTM_init_def split: if_splits sum.splits)

text \<open>
  In this model the entries of a tensor are real numbers.  Whenever the
  forward pass of a constructed \<open>PulseDetectionNet\<close> returns, every entry
  of its output is the sigmoid of a real number and so lies in \<open>[0, 1]\<close>.
  This says nothing about the floating-point arithmetic of the learned
  layers, where a finite input can overflow.
\<close>

lemma real_valued_output_in_unit_interval:
  assumes "PulseDetectionNet_init w in_channels s reduce_channels hidden_channels kernel_size
             ul lstm_hidden_size lstm_num_layers dr = Inr net"
    and "PulseDetectionNet_forward net x = Inr y"
  shows "0 \<le> elem y idx \<and> elem y idx \<le> 1"
proof -
  from assms(2) obtain x4 x5 where
    fin: "Sequential_forward (final net) x4 = Inr x5" and tr: "transpose_dims 1 2 x5 = Inr y"
    unfolding PulseDetectionNet_forward_def
    by (simp split: sum.splits prod.splits)
  from fin [unfolded PulseDetectionNet_init_final [OF assms(1)]]
  obtain z :: tensor where z: "elem x5 = (\<lambda>idx. sigmoid (elem z idx))"
    using Sequential_forward_Sigmoid_last by blast
  from tr have "elem y idx = elem x5 (swap_dims 1 2 idx)"
    by (auto simp: transpose_dims_def split: if_splits)
  with z sigmoid_range [of "elem z (swap_dims 1 2 idx)"] show ?thesis by simp
qed

text \<open>The forward pass returns on a batch of 16 samples of length 5000 with 40 channels.\<close>

lemma forward_returns_on_default_input:
  "(case default_net 5000 of
      Inl e \<Rightarrow> False
    | Inr net \<Rightarrow>
        (case PulseDetectionNet_forward net \<lparr>shape = [16, 5000, 40], elem = (\<lambda>_. 0)\<rparr> of
           Inl e \<Rightarrow> False
         | Inr y \<Rightarrow> shape y = [16, 5000, 1] \<and> 0 \<le> elem y [3, 17, 0] \<and> elem y [3, 17, 0] \<le> 1))"
proof -
  let ?x = "\<lparr>shape = [16, 5000, 40], elem = (\<lambda>_. 0)\<rparr>"
  obtain net where net: "default_net 5000 = Inr net"
    by (simp add: default_net_def PulseDetectionNet_init_def Let_def LSTM_init_def)
  have "map_sum id shape (case default_net 5000 of Inl e \<Rightarrow> Inl e
                            | Inr net \<Rightarrow> PulseDetectionNet_forward net ?x) = Inr [16, 5000, 1]"
    by (simp add: default_net_def PulseDetectionNet_init_def Let_def LSTM_init_def
          SpatialReductionPreprocessing_init_def EncoderBlock_init_def DecoderBlock_init_def sub_def
          PulseDetectionNet_forward_def transpose_dims_def swap_dims_def
          SpatialReductionPreprocessing_forward_def unsqueeze1_def squeeze1_def topk_dim2_def
          EncoderBlock_forward_def DecoderBlock_forward_def cat_dim1_def run_lstm_def
          LSTM_forward_def one_value_per_channel_def conv_fits_def conv_extent_def)
  then have "map_sum id shape (PulseDetectionNet_forward net ?x) = Inr [16, 5000, 1]"
    by (simp only: net sum.case)
  then obtain y where y: "PulseDetectionNet_forward net ?x = Inr y" and sy: "shape y = [16, 5000, 1]"
    by (cases "PulseDetectionNet_forward net ?x") auto
  from real_valued_output_in_unit_interval [OF net [unfolded default_net_def] y, of "[3, 17, 0]"]
  show ?thesis using net y sy by simp
qed

subsection \<open>Top-k selection along the spatial axis\<close>

lemma mset_insert_ranked: "mset (insert_ranked xs i js) = add_mset i (mset js)"
  by (induction js) simp_all

lemma set_insert_ranked: "set (insert_ranked xs i js) = insert i (set js)"
  by (induction js) auto

lemma ranks_before_total: "i \<noteq> j \<Longrightarrow> \<not> ranks_before xs i j \<Longrightarrow> ranks_before xs j i"
  by (auto simp: ranks_before_def)

lemma ranks_before_trans: "ranks_before xs i j \<Longrightarrow> ranks_before xs j l \<Longrightarrow> ranks_before xs i l"
  by (auto simp: ranks_before_def)

lemma sorted_insert_ranked:
  assumes "sorted_wrt (ranks_before xs) js" and "i \<notin> set js"
  shows "sorted_wrt (ranks_before xs) (insert_ranked xs i js)"
  using assms
proof (induction js)
  case Nil
  then show ?case by simp
next
  case (Cons j js)
  show ?case
  proof (cases "ranks_before xs i j")
    case True
    then show ?thesis using Cons.prems by (auto intro: ranks_before_trans)
  next
    case False
    then have "ranks_before xs j i" using Cons.prems(2) by (auto intro: ranks_before_total)
    then show ?thesis using False Cons by (auto simp: set_insert_ranked)
  qed
qed

lemma foldr_insert_ranked:
  "distinct is \<Longrightarrow>
     mset (foldr (insert_ranked xs) is []) = mset is
   \<and> sorted_wrt (ranks_before xs) (foldr (insert_ranked xs) is [])"
proof (induction "is")
  case Nil
  then show ?case by simp
next
  case (Cons i "is")
  then have "i \<notin> set (foldr (insert_ranked xs) is [])"
    by (metis distinct.simps(2) set_mset_mset)
  with Cons show ?case by (simp add: mset_insert_ranked sorted_insert_ranked)
qed

lemma ranked_positions_props:
  shows mset_ranked_positions: "mset (ranked_positions xs) = mset [0..<length xs]"
    and sorted_ranked_positions: "sorted_wrt (ranks_before xs) (ranked_positions xs)"
  using foldr_insert_ranked [of "[0..<length xs]" xs] by (simp_all add: ranked_positions_def)

lemma set_ranked_positions: "set (ranked_positions xs) = {0..<length xs}"
  by (metis mset_ranked_positions set_mset_mset set_upt)

lemma length_ranked_positions: "length (ranked_positions xs) = length xs"
  by (metis mset_ranked_positions size_mset length_upt diff_zero)

lemma distinct_ranked_positions: "distinct (ranked_positions xs)"
  by (metis mset_ranked_positions distinct_upt mset_eq_imp_distinct_iff)

lemma ranked_values_descending:
  "rev (map ((!) xs) (ranked_positions xs)) = sort xs"
proof -
  let ?vs = "map ((!) xs) (ranked_positions xs)"
  have "mset ?vs = image_mset ((!) xs) (mset (ranked_positions xs))" by (rule mset_map)
  also have "\<dots> = image_mset ((!) xs) (mset [0..<length xs])"
    by (simp only: mset_ranked_positions)
  also have "\<dots> = mset (map ((!) xs) [0..<length xs])" by (rule mset_map [symmetric])
  also have "\<dots> = mset xs" by (simp only: map_nth)
  finally have m: "mset (rev ?vs) = mset xs" by simp
  have "sorted_wrt (\<lambda>i j. xs ! j \<le> xs ! i) (ranked_positions xs)"
    by (rule sorted_wrt_mono_rel [OF _ sorted_ranked_positions]) (auto simp: ranks_before_def)
  then have "sorted_wrt (\<lambda>a b. b \<le> a) ?vs" by (simp add: sorted_wrt_map)
  then have "sorted (rev ?vs)" by (simp add: sorted_wrt_rev)
  with m show ?thesis by (metis properties_for_sort)
qed

lemma topk_values_stable:
  "topk_values xs k = map ((!) xs) (stable_topk_positions xs k)"
proof -
  have "rev (sort xs) = map ((!) xs) (ranked_positions xs)"
    by (metis ranked_values_descending rev_rev_ident)
  then show ?thesis by (simp add: topk_values_def stable_topk_positions_def take_map)
qed

lemma stable_topk_positions_props:
  assumes "k \<le> length xs"
  shows "length (stable_topk_positions xs k) = k"
    and "distinct (stable_topk_positions xs k)"
    and "set (stable_topk_positions xs k) \<subseteq> {0..<length xs}"
    and "sorted_wrt (ranks_before xs) (stable_topk_positions xs k)"
    and "\<And>i j. i \<in> set (stable_topk_positions xs k) \<Longrightarrow> j < length xs \<Longrightarrow>
           j \<notin> set (stable_topk_positions xs k) \<Longrightarrow> ranks_before xs i j"
proof -
  let ?ps = "ranked_positions xs"
  show "length (stable_topk_positions xs k) = k"
    using assms by (simp add: stable_topk_positions_def length_ranked_positions)
  show "distinct (stable_topk_positions xs k)"
    by (simp add: stable_topk_positions_def distinct_ranked_positions)
  show "set (stable_topk_positions xs k) \<subseteq> {0..<length xs}"
    unfolding stable_topk_positions_def
    using set_take_subset [of k ?ps] set_ranked_positions [of xs] by blast
  have split: "sorted_wrt (ranks_before xs) (take k ?ps @ drop k ?ps)"
    using sorted_ranked_positions [of xs] by simp
  then show "sorted_wrt (ranks_before xs) (stable_topk_positions xs k)"
    unfolding stable_topk_positions_def sorted_wrt_append by blast
  fix i j
  assume i: "i \<in> set (stable_topk_positions xs k)" and j: "j < length xs"
    and nj: "j \<notin> set (stable_topk_positions xs k)"
  from j have "j \<in> set (take k ?ps) \<union> set (drop k ?ps)"
    unfolding set_append [symmetric] append_take_drop_id
    using set_ranked_positions [of xs] by simp
  with nj have "j \<in> set (drop k ?ps)" by (simp add: stable_topk_positions_def)
  with i split show "ranks_before xs i j"
    unfolding stable_topk_positions_def sorted_wrt_append by blast
qed

text \<open>
  C3.  Let the two convolution stages return the 16 feature maps \<open>x2\<close> for an
  input of spatial extent \<open>s\<close>, with \<open>reduced_spatial \<le> s\<close>.  Then the
  top-k step returns a tensor \<open>x3\<close> and the forward pass is the 1x1
  projection applied to exactly \<open>x3\<close>.  For every batch element \<open>b\<close>,
  feature map \<open>f\<close> and timepoint \<open>\<tau>\<close>, taken on their own, entry \<open>j\<close>
  of \<open>x3\<close> is the activation at the \<open>j\<close>-th of the positions chosen by
  stable top-k selection on the column of \<open>x2\<close> at \<open>(b, f, \<tau>)\<close>:
  these positions lie in the spatial range, come in the order "larger
  activation first, equal activations by ascending index", and each of them
  precedes every position that is not chosen in that order.
\<close>

theorem spatial_reduction_selects_stable_topk:
  assumes "shape x = [n, s, t]" and "reduced_spatial \<le> s"
    and "unsqueeze1 x = Inr x1"
    and "Sequential_forward
           (spatial_temporal_processing (SpatialReductionPreprocessing_init w in_channels reduced_spatial))
           x1 = Inr x2"
  shows "\<exists>x3. topk_dim2 x2 reduced_spatial = Inr x3
     \<and> shape x2 = [n, 16, s, t] \<and> shape x3 = [n, 16, reduced_spatial, t]
     \<and> SpatialReductionPreprocessing_forward
           (SpatialReductionPreprocessing_init w in_channels reduced_spatial) x
         = (case layer_forward (channel_adjust (SpatialReductionPreprocessing_init w in_channels reduced_spatial)) x3 of
              Inl e \<Rightarrow> Inl e | Inr x4 \<Rightarrow> squeeze1 x4)
     \<and> (\<forall>b f \<tau> j. j < reduced_spatial \<longrightarrow>
           (let col = map (\<lambda>p. elem x2 [b, f, p, \<tau>]) [0..<s];
                sel = stable_topk_positions col reduced_spatial
            in elem x3 [b, f, j, \<tau>] = elem x2 [b, f, sel ! j, \<tau>]
             \<and> sel ! j < s
             \<and> (\<forall>j'<reduced_spatial. j < j' \<longrightarrow> ranks_before col (sel ! j) (sel ! j'))
             \<and> (\<forall>p<s. p \<notin> set sel \<longrightarrow> ranks_before col (sel ! j) p)))"
proof -
  let ?m = "SpatialReductionPreprocessing_init w in_channels reduced_spatial"
  let ?k = reduced_spatial
  from assms(1,3) have s1: "shape x1 = [n, 1, s, t]" by (auto simp: unsqueeze1_def)
  from spatial_processing_success [OF assms(4) s1] have s2: "shape x2 = [n, 16, s, t]" by simp
  define x3 where "x3 = \<lparr>shape = (shape x2)[2 := ?k],
      elem = (\<lambda>idx. topk_values (map (\<lambda>p. elem x2 (idx[2 := p])) [0..<shape x2 ! 2]) ?k ! (idx ! 2))\<rparr>"
  have tk: "topk_dim2 x2 ?k = Inr x3"
    using s2 assms(2) by (simp add: topk_dim2_def x3_def)
  have s3: "shape x3 = [n, 16, ?k, t]" using s2 by (simp add: x3_def)
  have fw: "SpatialReductionPreprocessing_forward ?m x
         = (case layer_forward (channel_adjust ?m) x3 of Inl e \<Rightarrow> Inl e | Inr x4 \<Rightarrow> squeeze1 x4)"
    unfolding SpatialReductionPreprocessing_forward_def
    using assms(1,3,4) tk by (simp add: SpatialReductionPreprocessing_init_def)
  have sel: "\<forall>b f \<tau> j. j < ?k \<longrightarrow>
           (let col = map (\<lambda>p. elem x2 [b, f, p, \<tau>]) [0..<s];
                sel = stable_topk_positions col ?k
            in elem x3 [b, f, j, \<tau>] = elem x2 [b, f, sel ! j, \<tau>]
             \<and> sel ! j < s
             \<and> (\<forall>j'<?k. j < j' \<longrightarrow> ranks_before col (sel ! j) (sel ! j'))
             \<and> (\<forall>p<s. p \<notin> set sel \<longrightarrow> ranks_before col (sel ! j) p))"
  proof (intro allI impI)
    fix b f \<tau> j assume j: "j < ?k"
    define col where "col = map (\<lambda>p. elem x2 [b, f, p, \<tau>]) [0..<s]"
    define sel where "sel = stable_topk_positions col ?k"
    have lc: "length col = s" by (simp add: col_def)
    then have k: "?k \<le> length col" using assms(2) by simp
    note props = stable_topk_positions_props [OF k, folded sel_def]
    have mem: "sel ! j \<in> set sel" using j props(1) by simp
    then have lt: "sel ! j < s" using props(3) lc by auto
    have "elem x3 [b, f, j, \<tau>] = topk_values col ?k ! j"
      using s2 by (simp add: x3_def col_def)
    also have "\<dots> = col ! (sel ! j)"
      using j props(1) by (simp add: topk_values_stable sel_def [symmetric])
    also have "\<dots> = elem x2 [b, f, sel ! j, \<tau>]" using lt by (simp add: col_def)
    finally have e: "elem x3 [b, f, j, \<tau>] = elem x2 [b, f, sel ! j, \<tau>]" .
    have o: "\<forall>j'<?k. j < j' \<longrightarrow> ranks_before col (sel ! j) (sel ! j')"
      using props(4) props(1) by (simp add: sorted_wrt_iff_nth_less)
    have r: "\<forall>p<s. p \<notin> set sel \<longrightarrow> ranks_before col (sel ! j) p"
      using props(5) [OF mem] lc by simp
    show "let col = map (\<lambda>p. elem x2 [b, f, p, \<tau>]) [0..<s];
              sel = stable_topk_positions col ?k
          in elem x3 [b, f, j, \<tau>] = elem x2 [b, f, sel ! j, \<tau>]
           \<and> sel ! j < s
           \<and> (\<forall>j'<?k. j < j' \<longrightarrow> ranks_before col (sel ! j) (sel ! j'))
           \<and> (\<forall>p<s. p \<notin> set sel \<longrightarrow> ranks_before col (sel ! j) p)"
      unfolding Let_def using e lt o r by (simp add: col_def sel_def)
  qed
  show ?thesis using tk s2 s3 fw sel by blast
qed

theorem spatial_reduction_selects_stable_topk_witness:
  "stable_topk_positions [3, 1, 3, 2 :: real] 2 = [0, 2]
   \<and> (case unsqueeze1 \<lparr>shape = [1, 4, 2], elem = (\<lambda>_. 0)\<rparr> of
        Inl e \<Rightarrow> False
      | Inr x1 \<Rightarrow>
         (case Sequential_forward
                 (spatial_temporal_processing (SpatialReductionPreprocessing_init example_weights 4 2)) x1 of
            Inl e \<Rightarrow> False
          | Inr x2 \<Rightarrow>
              map (\<lambda>p. elem x2 [0, 0, p, 1]) [0..<4] = [3, 1, 3, 2]
            \<and> (case topk_dim2 x2 2 of
                  Inl e \<Rightarrow> False
                | Inr x3 \<Rightarrow> shape x3 = [1, 16, 2, 2]
                           \<and> elem x3 [0, 0, 0, 1] = 3 \<and> elem x3 [0, 0, 1, 1] = 3)))"
proof -
  let ?x = "\<lparr>shape = [1, 4, 2], elem = (\<lambda>_. 0)\<rparr>"
  let ?m = "SpatialReductionPreprocessing_init example_weights 4 2"
  have sel: "stable_topk_positions [3, 1, 3, 2 :: real] 2 = [0, 2]"
    by (simp add: stable_topk_positions_def ranked_positions_def ranks_before_def upt_conv_Cons)
  obtain x1 where u: "unsqueeze1 ?x = Inr x1"
    by (simp add: unsqueeze1_def)
  then have s1: "shape x1 = [1, 1, 4, 2]" by (auto simp: unsqueeze1_def)
  have "\<exists>x2. Sequential_forward (spatial_temporal_processing ?m) x1 = Inr x2
            \<and> map (\<lambda>p. elem x2 [0, 0, p, 1]) [0..<4] = [3, 1, 3, 2]"
    using s1
    by (simp add: SpatialReductionPreprocessing_init_def example_weights_def
          one_value_per_channel_def conv_fits_def conv_extent_def upt_conv_Cons)
  then obtain x2 where p: "Sequential_forward (spatial_temporal_processing ?m) x1 = Inr x2"
    and col: "map (\<lambda>p. elem x2 [0, 0, p, 1]) [0..<4] = [3, 1, 3, 2]" by (elim exE conjE)
  have a: "shape ?x = [1, 4, 2]" by simp
  have b: "(2::nat) \<le> 4" by simp
  from spatial_reduction_selects_stable_topk [OF a b u p] obtain x3 where
    tk: "topk_dim2 x2 2 = Inr x3" and s3: "shape x3 = [1, 16, 2, 2]"
    and all: "\<forall>b f \<tau> j. j < 2 \<longrightarrow>
           (let col = map (\<lambda>p. elem x2 [b, f, p, \<tau>]) [0..<4];
                sel = stable_topk_positions col 2
            in elem x3 [b, f, j, \<tau>] = elem x2 [b, f, sel ! j, \<tau>]
             \<and> sel ! j < 4
             \<and> (\<forall>j'<2. j < j' \<longrightarrow> ranks_before col (sel ! j) (sel ! j'))
             \<and> (\<forall>p<4. p \<notin> set sel \<longrightarrow> ranks_before col (sel ! j) p))"
    by blast
  have e: "elem x2 [0, 0, 0, 1] = 3" "elem x2 [0, 0, 2, 1] = 3"
    using col by (simp_all add: upt_conv_Cons numeral_2_eq_2)
  from all [rule_format, of 0 0 0 1] all [rule_format, of 1 0 0 1]
  have "elem x3 [0, 0, 0, 1] = 3 \<and> elem x3 [0, 0, 1, 1] = 3"
    unfolding Let_def col sel using e by simp
  with sel u p col tk s3 show ?thesis by simp
qed

subsection \<open>Renaming and loading checkpoint entries\<close>

lemma replace_nonempty_Nil [simp]: "replace_nonempty old new [] = []"
  by (simp add: replace_nonempty.simps)

lemma replace_nonempty_prefix:
  "old \<noteq> [] \<Longrightarrow> replace_nonempty old new (old @ r) = new @ replace_nonempty old new r"
  by (subst replace_nonempty.simps) simp

lemma replace_nonempty_Cons:
  "\<not> prefix old (c # cs) \<Longrightarrow> replace_nonempty old new (c # cs) = c # replace_nonempty old new cs"
  by (subst replace_nonempty.simps) simp

lemma replace_nonempty_absent:
  "\<not> sublist old s \<Longrightarrow> replace_nonempty old new s = s"
proof (induction s)
  case Nil
  then show ?case by simp
next
  case (Cons c cs)
  have "\<not> prefix old (c # cs)" using Cons.prems by (meson prefix_imp_sublist)
  moreover have "\<not> sublist old cs" using Cons.prems by (meson sublist_Cons_right)
  ultimately show ?case using Cons.IH by (simp add: replace_nonempty_Cons)
qed

lemma length_replace_nonempty_le:
  "length (replace_nonempty old [] s) \<le> length s"
proof (induction old "[] :: string" s rule: replace_nonempty.induct)
  case (1 old s)
  show ?case
  proof (cases "s = []")
    case True
    then show ?thesis by simp
  next
    case False
    show ?thesis
    proof (cases "old \<noteq> [] \<and> prefix old s")
      case True
      with False 1(1) have "length (replace_nonempty old [] (drop (length old) s)) \<le> length s - length old"
        by simp
      with True False show ?thesis by (subst replace_nonempty.simps) simp
    next
      case no: False
      with False 1(2) have "length (replace_nonempty old [] (tl s)) \<le> length (tl s)"
        by simp
      with no False show ?thesis by (subst replace_nonempty.simps) (cases s, auto)
    qed
  qed
qed

lemma length_replace_nonempty_less:
  assumes "old \<noteq> []"
  shows "sublist old s \<Longrightarrow> length (replace_nonempty old [] s) < length s"
proof (induction s)
  case Nil
  with assms show ?case by simp
next
  case (Cons c cs)
  show ?case
  proof (cases "prefix old (c # cs)")
    case True
    then obtain r where r: "c # cs = old @ r" by (auto simp: prefix_def)
    have le: "length (replace_nonempty old [] r) \<le> length r" by (rule length_replace_nonempty_le)
    have pos: "0 < length old" using assms by simp
    have e: "replace_nonempty old [] (old @ r) = replace_nonempty old [] r"
      using replace_nonempty_prefix [OF assms, of "[]" r] by simp
    have "length (replace_nonempty old [] r) < length old + length r"
      using le pos by linarith
    then show ?thesis unfolding r e by simp
  next
    case False
    with Cons.prems have "sublist old cs" by (simp add: sublist_Cons_right)
    with Cons.IH False show ?thesis by (simp add: replace_nonempty_Cons)
  qed
qed

lemma rename_key_prefix: "rename_key (''model.'' @ r) = rename_key r"
  unfolding rename_key_def str_replace_def
  using replace_nonempty_prefix [of "''model.''" "[]" r] by simp

lemma rename_key_absent: "\<not> sublist ''model.'' r \<Longrightarrow> rename_key r = r"
  by (simp add: rename_key_def str_replace_def replace_nonempty_absent)

lemma rename_key_shorter: "sublist ''model.'' r \<Longrightarrow> length (rename_key r) < length r"
  unfolding rename_key_def str_replace_def
  using length_replace_nonempty_less [of "''model.''" r] by simp

lemma rename_key_fixed_iff: "rename_key k = k \<longleftrightarrow> \<not> sublist ''model.'' k"
  using rename_key_absent [of k] rename_key_shorter [of k] by auto

lemma rename_key_prefix_iff: "rename_key (''model.'' @ r) = r \<longleftrightarrow> \<not> sublist ''model.'' r"
  unfolding rename_key_prefix by (rule rename_key_fixed_iff)

lemma replace_nonempty_leftmost:
  assumes "old \<noteq> []"
  shows "\<not> sublist old (a @ butlast old) \<Longrightarrow>
         replace_nonempty old new (a @ old @ b) = a @ new @ replace_nonempty old new b"
proof (induction a)
  case Nil
  show ?case using replace_nonempty_prefix [OF assms, of new b] by simp
next
  case (Cons c a)
  have old: "old = butlast old @ [last old]" using assms by simp
  have np: "\<not> prefix old (c # a @ old @ b)"
  proof
    assume p: "prefix old (c # a @ old @ b)"
    have "c # a @ old @ b = (c # a @ butlast old) @ ([last old] @ b)"
      using old by (metis append.assoc append_Cons)
    then have q: "prefix (c # a @ butlast old) (c # a @ old @ b)"
      by (metis prefixI)
    have "length old \<le> length (c # a @ butlast old)" using assms by simp
    from prefix_length_prefix [OF p q this] have "prefix old ((c # a) @ butlast old)" by simp
    from prefix_imp_sublist [OF this] Cons.prems show False by blast
  qed
  have "\<not> sublist old (a @ butlast old)"
    using Cons.prems by (simp add: sublist_Cons_right)
  with Cons.IH have ih: "replace_nonempty old new (a @ old @ b) = a @ new @ replace_nonempty old new b" .
  have "replace_nonempty old new ((c # a) @ old @ b) = c # replace_nonempty old new (a @ old @ b)"
    using replace_nonempty_Cons [OF np, of new] by simp
  with ih show ?case by simp
qed

lemma rename_key_leftmost:
  assumes "\<not> sublist ''model.'' (a @ ''model'')"
  shows "rename_key (a @ ''model.'' @ b) = a @ rename_key b"
proof -
  have bl: "butlast ''model.'' = ''model''" by simp
  have ne: "''model.'' \<noteq> []" by simp
  from replace_nonempty_leftmost [OF ne, of a "[]" b] assms
  show ?thesis unfolding bl rename_key_def str_replace_def by simp
qed

lemma update_fresh: "k \<notin> fst ` set al \<Longrightarrow> AList.update k v al = al @ [(k, v)]"
  by (induction al) auto

lemma foldl_update_fresh:
  assumes "distinct (map f ks)" and "f ` set ks \<inter> fst ` set acc = {}"
    and "length vs = length ks"
  shows "foldl (\<lambda>d (k, v). AList.update (f k) v d) acc (zip ks vs) = acc @ zip (map f ks) vs"
  using assms
proof (induction ks arbitrary: acc vs)
  case Nil
  then show ?case by simp
next
  case (Cons k ks)
  then obtain v vs' where vs: "vs = v # vs'" by (cases vs) auto
  have fresh: "f k \<notin> fst ` set acc" using Cons.prems(2) by auto
  have "foldl (\<lambda>d (k, v). AList.update (f k) v d) (acc @ [(f k, v)]) (zip ks vs')
          = (acc @ [(f k, v)]) @ zip (map f ks) vs'"
    using Cons.prems vs by (intro Cons.IH) auto
  then show ?case using vs fresh by (simp add: update_fresh)
qed

lemma renamed_state_dict_distinct:
  assumes "distinct (map (rename_key \<circ> fst) sd)"
  shows "renamed_state_dict sd = map (\<lambda>(k, v). (rename_key k, v)) sd"
proof -
  let ?ks = "map fst sd" and ?vs = "map snd sd"
  have sd: "sd = zip ?ks ?vs" by (simp add: zip_map_fst_snd)
  have "foldl (\<lambda>d (k, v). AList.update (rename_key k) v d) [] (zip ?ks ?vs)
          = [] @ zip (map rename_key ?ks) ?vs"
  proof (rule foldl_update_fresh)
    show "distinct (map rename_key (map fst sd))" using assms by simp
  qed simp_all
  also have "\<dots> = map (\<lambda>(k, v). (rename_key k, v)) sd"
    by (induction sd) auto
  finally show ?thesis
    unfolding renamed_state_dict_def using sd by simp
qed

text \<open>
  C8 (as amended).  \<open>load_pretrained\<close> renames a key by deleting every
  occurrence of \<open>model.\<close>, scanning from the left: a leading \<open>model.\<close> is
  always dropped; the remainder after it is left unchanged exactly when it
  contains no further occurrence (and a key is left unchanged exactly when
  it contains none); the text before the leftmost occurrence is kept and
  the renaming goes on behind it.  When no two saved keys are renamed to
  the same key, the renamed mapping carries the saved values under the
  renamed keys, in the same order; and when the renamed keys are the keys
  of the site's sub-network and the shapes agree, that sub-network is
  loaded with them, and the loop goes on with the remaining networks and
  paths.
\<close>

theorem load_pretrained_removes_model_substring:
  assumes loaded: "files path = Some ck"
    and entry: "map_of ck ''state_dict'' = Some sd"
    and dist: "distinct (map (rename_key \<circ> fst) sd)"
    and same: "rename_key ` fst ` set sd = fst ` set network"
    and shapes: "\<forall>(k, u)\<in>set network. \<forall>v.
                   map_of (map (\<lambda>(k, v). (rename_key k, v)) sd) k = Some v \<longrightarrow> shp v = shp u"
  shows "(\<forall>r. rename_key (''model.'' @ r) = rename_key r)
       \<and> (\<forall>r. rename_key (''model.'' @ r) = r \<longleftrightarrow> \<not> sublist ''model.'' r)
       \<and> (\<forall>k. rename_key k = k \<longleftrightarrow> \<not> sublist ''model.'' k)
       \<and> (\<forall>a b. \<not> sublist ''model.'' (a @ ''model'')
                 \<longrightarrow> rename_key (a @ ''model.'' @ b) = a @ rename_key b)
       \<and> renamed_state_dict sd = map (\<lambda>(k, v). (rename_key k, v)) sd
       \<and> load_pretrained shp first_item files (network # networks) (path # paths) =
           (case load_pretrained shp first_item files networks paths of
              Inl e \<Rightarrow> Inl e
            | Inr rest \<Rightarrow>
                Inr (map (\<lambda>(k, u). (k, the (map_of (map (\<lambda>(k, v). (rename_key k, v)) sd) k))) network
                     # rest))"
proof -
  let ?rsd = "map (\<lambda>(k, v). (rename_key k, v)) sd"
  have ren: "renamed_state_dict sd = ?rsd"
    using dist by (rule renamed_state_dict_distinct)
  have "map fst ?rsd = map (rename_key \<circ> fst) sd" by (induction sd) auto
  then have "set (map fst ?rsd) = set (map rename_key (map fst sd))" by simp
  then have keys: "fst ` set ?rsd = fst ` set network"
    unfolding set_map using same by simp
  have found: "\<And>k u. (k, u) \<in> set network \<Longrightarrow> \<exists>v. map_of ?rsd k = Some v \<and> shp v = shp u"
  proof -
    fix k u assume ku: "(k, u) \<in> set network"
    then have "k \<in> fst ` set ?rsd" unfolding keys by force
    then obtain v where v: "map_of ?rsd k = Some v"
      by (metis map_of_eq_None_iff not_Some_eq)
    with shapes ku have "shp v = shp u" by fastforce
    with v show "\<exists>v. map_of ?rsd k = Some v \<and> shp v = shp u" by blast
  qed
  have c0: "\<not> list_ex (entry_index_error shp ?rsd) network"
    unfolding list_ex_iff
  proof
    assume "\<exists>e\<in>set network. entry_index_error shp ?rsd e"
    then obtain k u where ku: "(k, u) \<in> set network" and ie: "entry_index_error shp ?rsd (k, u)"
      by auto
    from found [OF ku] obtain v where "map_of ?rsd k = Some v" and "shp v = shp u" by blast
    with ie show False by (auto simp: entry_index_error_def)
  qed
  have c1: "list_all (\<lambda>(k, v). k \<in> set (map fst network)) ?rsd"
    unfolding list_all_iff using keys by force
  have c2: "list_all (entry_loads shp ?rsd) network"
    unfolding list_all_iff
  proof
    fix e assume mem: "e \<in> set network"
    obtain k u where e: "e = (k, u)" by (cases e)
    with mem have ku: "(k, u) \<in> set network" by simp
    from found [OF ku] obtain v where "map_of ?rsd k = Some v" and "shp v = shp u" by blast
    then show "entry_loads shp ?rsd e" unfolding e by (simp add: entry_loads_def)
  qed
  have c3: "map (loaded_entry shp first_item ?rsd) network
              = map (\<lambda>(k, u). (k, the (map_of ?rsd k))) network"
  proof (rule map_cong [OF refl])
    fix e assume mem: "e \<in> set network"
    obtain k u where e: "e = (k, u)" by (cases e)
    with mem have ku: "(k, u) \<in> set network" by simp
    from found [OF ku] obtain v where "map_of ?rsd k = Some v" and "shp v = shp u" by blast
    then show "loaded_entry shp first_item ?rsd e = (case e of (k, u) \<Rightarrow> (k, the (map_of ?rsd k)))"
      unfolding e loaded_entry_def by auto
  qed
  have lsd: "load_state_dict shp first_item network (renamed_state_dict sd)
      = Inr (map (\<lambda>(k, u). (k, the (map_of ?rsd k))) network)"
    unfolding ren load_state_dict_def using c0 c1 c2 c3 by simp
  have lp: "load_pretrained shp first_item files (network # networks) (path # paths) =
           (case load_pretrained shp first_item files networks paths of
              Inl e \<Rightarrow> Inl e
            | Inr rest \<Rightarrow> Inr (map (\<lambda>(k, u). (k, the (map_of ?rsd k))) network # rest))"
    using lsd loaded entry by (simp add: torch_load_def dict_getitem_def)
  have p1: "\<forall>r. rename_key (''model.'' @ r) = rename_key r"
    by (intro allI) (rule rename_key_prefix)
  have p2: "\<forall>r. rename_key (''model.'' @ r) = r \<longleftrightarrow> \<not> sublist ''model.'' r"
    by (intro allI) (rule rename_key_prefix_iff)
  have p3: "\<forall>k. rename_key k = k \<longleftrightarrow> \<not> sublist ''model.'' k"
    by (intro allI) (rule rename_key_fixed_iff)
  have p4: "\<forall>a b. \<not> sublist ''model.'' (a @ ''model'')
                 \<longrightarrow> rename_key (a @ ''model.'' @ b) = a @ rename_key b"
    by (intro allI impI) (rule rename_key_leftmost)
  show ?thesis
    by (rule conjI [OF p1 conjI [OF p2 conjI [OF p3 conjI [OF p4 conjI [OF ren lp]]]]])
qed

theorem load_pretrained_removes_model_substring_witness:
  "load_pretrained (\<lambda>v. [length v]) (\<lambda>v. take 1 v)
     (\<lambda>p. if p = ''site0.ckpt''
           then Some [(''epoch'', []),
                      (''state_dict'', [(''model.model.final.3.weight'', [1::int, 2]),
                                        (''final.3.bias'', [3])])]
           else None)
     [[(''final.3.bias'', [0]), (''final.3.weight'', [0, 0])]] [''site0.ckpt'']
   = Inr [[(''final.3.bias'', [3]), (''final.3.weight'', [1, 2])]]"
proof -
  let ?sd = "[(''model.model.final.3.weight'', [1::int, 2]), (''final.3.bias'', [3])]"
  let ?ck = "[(''epoch'', []), (''state_dict'', ?sd)]"
  let ?files = "\<lambda>p. if p = ''site0.ckpt'' then Some ?ck else None"
  let ?net = "[(''final.3.bias'', [0::int]), (''final.3.weight'', [0, 0])]"
  have r1: "rename_key ''model.model.final.3.weight'' = ''final.3.weight''"
    by (simp add: rename_key_def str_replace_def replace_nonempty.simps)
  have r2: "rename_key ''final.3.bias'' = ''final.3.bias''"
    by (simp add: rename_key_def str_replace_def replace_nonempty.simps)
  have loaded: "?files ''site0.ckpt'' = Some ?ck" by simp
  have entry: "map_of ?ck ''state_dict'' = Some ?sd" by simp
  have dist: "distinct (map (rename_key \<circ> fst) ?sd)" by (simp add: r1 r2)
  have same: "rename_key ` fst ` set ?sd = fst ` set ?net" by (auto simp: r1 r2)
  have shapes: "\<forall>(k, u)\<in>set ?net. \<forall>v.
      map_of (map (\<lambda>(k, v). (rename_key k, v)) ?sd) k = Some v \<longrightarrow> [length v] = [length u]"
    by (simp add: r1 r2)
  from load_pretrained_removes_model_substring
    [where files = "?files" and path = "''site0.ckpt''" and shp = "\<lambda>v. [length v]"
       and first_item = "\<lambda>v. take 1 v" and networks = "[]" and paths = "[]",
     OF loaded entry dist same shapes]
  show ?thesis by (simp add: r1 r2)
qed

text \<open>
  The key \<open>model.a.model.b\<close> is renamed to \<open>a.b\<close>: the inner occurrence
  is deleted too, so the remainder after the prefix is not left unchanged.
\<close>

theorem rename_key_inner_occurrence_counterexample:
  "rename_key (''model.'' @ ''a.model.b'') = ''a.b'' \<and> rename_key (''model.'' @ ''a.model.b'') \<noteq> ''a.model.b''"
  by (simp add: rename_key_def str_replace_def replace_nonempty.simps)

subsection \<open>Freezing and unfreezing one site\<close>

lemma set_site_grad_valid:
  assumes "abs_index (length (site_networks_params m)) i = Inr k"
  shows "set_site_grad b m i =
           Inr (m\<lparr>site_networks_params :=
                    (site_networks_params m)[k := set_requires_grad b (site_networks_params m ! k)]\<rparr>)"
  using assms by (simp add: set_site_grad_def)

lemma abs_index_less: "abs_index n i = Inr k \<Longrightarrow> k < n"
  by (auto simp: abs_index_def split: if_splits)

lemma set_requires_grad_data:
  "map data (set_requires_grad b ps) = map data ps"
  by (simp add: set_requires_grad_def)

lemma set_requires_grad_flags:
  "map requires_grad (set_requires_grad b ps) = replicate (length ps) b"
  by (induction ps) (simp_all add: set_requires_grad_def)

text \<open>
  C10.  For a valid site index \<open>i\<close> (one that Python's indexing of
  \<open>site_networks\<close> accepts, resolved to position \<open>k\<close>), \<open>freeze_site\<close>
  and \<open>unfreeze_site\<close> return normally; afterwards every parameter of site
  \<open>k\<close> has \<open>requires_grad\<close> False (respectively True), the numeric value
  of every parameter of site \<open>k\<close> is what it was, the parameter lists of
  all other sites are untouched, and so are the parameters of the fusion
  module and of the PTT regression heads.
\<close>

theorem freeze_unfreeze_site_frame:
  fixes m :: "'v MultiSite_parameters"
  assumes "abs_index (length (site_networks_params m)) i = Inr k"
  shows "\<exists>mf mu.
     freeze_site m i = Inr mf \<and> unfreeze_site m i = Inr mu
   \<and> map requires_grad (site_networks_params mf ! k)
        = replicate (length (site_networks_params m ! k)) False
   \<and> map requires_grad (site_networks_params mu ! k)
        = replicate (length (site_networks_params m ! k)) True
   \<and> map data (site_networks_params mf ! k) = map data (site_networks_params m ! k)
   \<and> map data (site_networks_params mu ! k) = map data (site_networks_params m ! k)
   \<and> length (site_networks_params mf) = length (site_networks_params m)
   \<and> length (site_networks_params mu) = length (site_networks_params m)
   \<and> (\<forall>j. j \<noteq> k \<longrightarrow>
          site_networks_params mf ! j = site_networks_params m ! j
        \<and> site_networks_params mu ! j = site_networks_params m ! j)
   \<and> cross_site_attention_params mf = cross_site_attention_params m
   \<and> cross_site_attention_params mu = cross_site_attention_params m
   \<and> ptt_regression_heads_params mf = ptt_regression_heads_params m
   \<and> ptt_regression_heads_params mu = ptt_regression_heads_params m"
proof -
  have n: "k < length (site_networks_params m)"
    using assms by (rule abs_index_less)
  have f: "freeze_site m i = Inr (m\<lparr>site_networks_params :=
      (site_networks_params m)[k := set_requires_grad False (site_networks_params m ! k)]\<rparr>)"
    unfolding freeze_site_def by (rule set_site_grad_valid [OF assms])
  have u: "unfreeze_site m i = Inr (m\<lparr>site_networks_params :=
      (site_networks_params m)[k := set_requires_grad True (site_networks_params m ! k)]\<rparr>)"
    unfolding unfreeze_site_def by (rule set_site_grad_valid [OF assms])
  show ?thesis
    unfolding f u using n
    by (simp add: set_requires_grad_data set_requires_grad_flags)
qed

theorem freeze_unfreeze_site_frame_witness:
  "freeze_site
     \<lparr>site_networks_params = [[\<lparr>data = 1::int, requires_grad = True\<rparr>],
                              [\<lparr>data = 2, requires_grad = True\<rparr>, \<lparr>data = 3, requires_grad = False\<rparr>]],
      cross_site_attention_params = [\<lparr>data = 4, requires_grad = True\<rparr>],
      ptt_regression_heads_params = [(''0_1'', [\<lparr>data = 5, requires_grad = True\<rparr>])]\<rparr> (- 1)
   = Inr \<lparr>site_networks_params = [[\<lparr>data = 1, requires_grad = True\<rparr>],
                              [\<lparr>data = 2, requires_grad = False\<rparr>, \<lparr>data = 3, requires_grad = False\<rparr>]],
      cross_site_attention_params = [\<lparr>data = 4, requires_grad = True\<rparr>],
      ptt_regression_heads_params = [(''0_1'', [\<lparr>data = 5, requires_grad = True\<rparr>])]\<rparr>"
proof -
  let ?m = "\<lparr>site_networks_params = [[\<lparr>data = 1::int, requires_grad = True\<rparr>],
                              [\<lparr>data = 2, requires_grad = True\<rparr>, \<lparr>data = 3, requires_grad = False\<rparr>]],
      cross_site_attention_params = [\<lparr>data = 4, requires_grad = True\<rparr>],
      ptt_regression_heads_params = [(''0_1'', [\<lparr>data = 5, requires_grad = True\<rparr>])]\<rparr>"
  have a: "abs_index (length (site_networks_params ?m)) (- 1) = Inr 1"
    by (simp add: abs_index_def)
  from freeze_unfreeze_site_frame [OF a] obtain mf where
    "freeze_site ?m (- 1) = Inr mf" by blast
  then show ?thesis
    by (simp add: freeze_site_def set_site_grad_def abs_index_def set_requires_grad_def)
qed

end
